theory Spec2Isabelle
  imports Main "HOL-Library.Sublist"
begin

section \<open>Data model\<close>

text \<open>
  The program of \<^verbatim>\<open>aws_manager.py\<close> talks to three boto3 clients and to a
  logger. Nothing else is observable, so the embedding passes a \<open>world\<close>
  through every method: the calls made on the clients so far, the records
  the logger has shown, and what was shown on the console. A Python exception
  is a value of type \<open>exn\<close>; a method that returns nothing gives back
  \<open>exn option\<close> (\<open>None\<close> when it returns normally), a method that returns a
  table gives back \<open>exn + table\<close>.

  Only exceptions below \<^verbatim>\<open>Exception\<close> are modelled: they are the ones the
  clients and the log handler raise and the ones \<^verbatim>\<open>except Exception\<close> catches.
\<close>

datatype exn =
    ClientError string string
  | Exception string
  | KeyError string
  | IndexError
  | UnboundLocalError string
  | MarkupError string

text \<open>
  \<open>ClientError code text\<close> is a botocore \<^verbatim>\<open>ClientError\<close> whose
  \<^verbatim>\<open>e.response["Error"]["Code"]\<close> is \<open>code\<close> and whose \<^verbatim>\<open>str\<close> is \<open>text\<close>;
  \<open>Exception text\<close> is any other exception object the clients or the program
  raise with a message; \<open>MarkupError text\<close> is the error of the log handler's
  markup renderer. \<open>str_exn\<close> is Python's \<^verbatim>\<open>str\<close> on the exception: the message,
  for a \<^verbatim>\<open>KeyError\<close> the key in quotes, for an \<^verbatim>\<open>UnboundLocalError\<close> the sentence
  of Python 3.11.
\<close>

definition str_exn :: "exn \<Rightarrow> string" where
  "str_exn e =
     (case e of
        ClientError code text \<Rightarrow> text
      | Exception text \<Rightarrow> text
      | KeyError k \<Rightarrow> [CHR 0x27] @ k @ [CHR 0x27]
      | IndexError \<Rightarrow> ''list index out of range''
      | UnboundLocalError n \<Rightarrow>
          ''cannot access local variable '' @ [CHR 0x27] @ n @ [CHR 0x27]
            @ '' where it is not associated with a value''
      | MarkupError text \<Rightarrow> text)"

record tag =
  Key :: "string option"
  Value :: "string option"

text \<open>
  The program reads a tag with \<^verbatim>\<open>.get\<close>, which yields \<^verbatim>\<open>None\<close> for a missing
  key, so both entries are optional. An instance carries \<^verbatim>\<open>'Tags'\<close> only when
  it has tags: \<open>Tags i = None\<close> is the dictionary without that key.
\<close>

record ec2_instance =
  Tags :: "tag list option"
  InstanceId :: string
  InstanceType :: string
  State_Name :: string

record reservation =
  Instances :: "ec2_instance list"

record db_instance =
  DBInstanceIdentifier :: string
  DBInstanceClass :: string
  DBInstanceStatus :: string

record asg =
  AutoScalingGroupName :: string
  MinSize :: int
  MaxSize :: int
  DesiredCapacity :: int

text \<open>
  A call on a client, with its arguments. The arguments of
  \<open>UpdateAutoScalingGroup\<close> are, in this order, \<^verbatim>\<open>AutoScalingGroupName\<close>,
  \<^verbatim>\<open>MinSize\<close>, \<^verbatim>\<open>MaxSize\<close> and \<^verbatim>\<open>DesiredCapacity\<close>.
\<close>

datatype call =
    DescribeInstances
  | StartInstances "string list"
  | StopInstances "string list"
  | DescribeDBInstances
  | StartDBInstance string
  | StopDBInstance string
  | DescribeAutoScalingGroups
  | UpdateAutoScalingGroup string int int int

text \<open>
  The collaborators of the manager, all of them arbitrary: the three clients
  and the handler of the logger it was given. Each client method answers from
  the calls made
  before it and its own arguments, with a response or with an exception.
  \<open>describe_instances\<close> gives \<^verbatim>\<open>response["Reservations"]\<close>,
  \<open>describe_db_instances\<close> gives \<^verbatim>\<open>response["DBInstances"]\<close> and
  \<open>describe_auto_scaling_groups\<close> gives \<^verbatim>\<open>response["AutoScalingGroups"]\<close>.
  A response has the shape the clients document: every key the program reads
  with \<^verbatim>\<open>[...]\<close> is there, but for \<^verbatim>\<open>'Tags'\<close>, which an instance without tags
  lacks.

  The module configures the logger with \<^verbatim>\<open>RichHandler(markup=True)\<close>, so each
  message is parsed as console markup before it is shown, and the parser
  raises on a message it cannot make sense of (a closing tag that closes
  nothing, for one). The parser belongs to the library, not to this program:
  \<open>render_markup\<close> stands for it, giving the exception it raises on a
  message, or \<open>None\<close> when it renders the message. The same parser renders
  the cells of the tables that \<^verbatim>\<open>check_status\<close> prints.
\<close>

record provider =
  describe_instances :: "call list \<Rightarrow> exn + reservation list"
  start_instances :: "call list \<Rightarrow> string list \<Rightarrow> exn option"
  stop_instances :: "call list \<Rightarrow> string list \<Rightarrow> exn option"
  describe_db_instances :: "call list \<Rightarrow> exn + db_instance list"
  start_db_instance :: "call list \<Rightarrow> string \<Rightarrow> exn option"
  stop_db_instance :: "call list \<Rightarrow> string \<Rightarrow> exn option"
  describe_auto_scaling_groups :: "call list \<Rightarrow> exn + asg list"
  update_auto_scaling_group :: "call list \<Rightarrow> string \<Rightarrow> int \<Rightarrow> int \<Rightarrow> int \<Rightarrow> exn option"
  render_markup :: "string \<Rightarrow> exn option"

text \<open>
  What reaches the logger. \<open>Info m\<close> is \<^verbatim>\<open>logger.info(m)\<close>, \<open>Error m\<close> is
  \<^verbatim>\<open>logger.error(m)\<close> on a string, \<open>ErrorExn e\<close> is \<^verbatim>\<open>logger.error(e)\<close> on
  the exception object, and \<open>ErrorFmt m e\<close> is \<^verbatim>\<open>logger.error(f"m{e}")\<close>.
\<close>

datatype log_record =
    Info string
  | Error string
  | ErrorExn exn
  | ErrorFmt string exn

record table =
  title :: string
  columns :: "string list"
  rows :: "string option list list"

datatype ui_event =
    ClearScreen
  | PanelPrinted string
  | TablePrinted table
  | ProgressStarted string
  | ProgressStopped
  | InputPrompt string

record world =
  calls :: "call list"
  log :: "log_record list"
  screen :: "ui_event list"

definition record_call :: "call \<Rightarrow> world \<Rightarrow> world" where
  "record_call c s = s\<lparr>calls := calls s @ [c]\<rparr>"

text \<open>The world once the handler has shown a record.\<close>

definition emitted :: "log_record \<Rightarrow> world \<Rightarrow> world" where
  "emitted r s = s\<lparr>log := log s @ [r]\<rparr>"

definition show_ui :: "ui_event \<Rightarrow> world \<Rightarrow> world" where
  "show_ui u s = s\<lparr>screen := screen s @ [u]\<rparr>"

text \<open>Python's \<^verbatim>\<open>str\<close> on a value that may be \<^verbatim>\<open>None\<close>, as an f-string applies it.\<close>

definition py_str :: "string option \<Rightarrow> string" where
  "py_str v = (case v of None \<Rightarrow> ''None'' | Some x \<Rightarrow> x)"

section \<open>The logger\<close>

text \<open>
  The text of a record, and the line the handler renders for it: the module
  sets the format \<^verbatim>\<open>"%(name)s - %(message)s "\<close> and names the logger
  \<^verbatim>\<open>logger\<close>.
\<close>

definition message :: "log_record \<Rightarrow> string" where
  "message r =
     (case r of
        Info m \<Rightarrow> m
      | Error m \<Rightarrow> m
      | ErrorExn e \<Rightarrow> str_exn e
      | ErrorFmt m e \<Rightarrow> m @ str_exn e)"

definition formatted :: "log_record \<Rightarrow> string" where
  "formatted r = ''logger - '' @ message r @ '' ''"

text \<open>
  \<open>rejects p r\<close> is the exception a logging call raises for the record \<open>r\<close>.
  The renderer returns a line without an opening bracket as it is, before it
  looks for tags; any other line goes through the parser. Both levels the
  program uses, \<^verbatim>\<open>INFO\<close> and \<^verbatim>\<open>ERROR\<close>, pass the configured level.
\<close>

definition rejects :: "provider \<Rightarrow> log_record \<Rightarrow> exn option" where
  "rejects p r = (if CHR ''['' \<in> set (formatted r) then render_markup p (formatted r) else None)"

text \<open>
  \<^verbatim>\<open>self.logger.info(...)\<close> and \<^verbatim>\<open>self.logger.error(...)\<close>: the record is shown, or
  the exception of the renderer leaves the call and nothing is shown.
\<close>

definition logger :: "provider \<Rightarrow> log_record \<Rightarrow> world \<Rightarrow> world \<times> exn option" where
  "logger p r s = (case rejects p r of None \<Rightarrow> (emitted r s, None) | Some e \<Rightarrow> (s, Some e))"

section \<open>Compute instances\<close>

text \<open>
  The body of the inner \<^verbatim>\<open>for instance in reservation["Instances"]\<close> of
  \<^verbatim>\<open>start_ec2_instances\<close>. \<^verbatim>\<open>instance['Tags'][0]\<close> raises \<^verbatim>\<open>KeyError\<close> on
  an instance without tags and \<^verbatim>\<open>IndexError\<close> on an empty tag list. An
  exception of \<^verbatim>\<open>logger.info\<close> leaves the loops like one of the client.
\<close>

fun start_ec2_instances_inner :: "provider \<Rightarrow> ec2_instance list \<Rightarrow> world \<Rightarrow> world \<times> exn option" where
  "start_ec2_instances_inner p [] s = (s, None)"
| "start_ec2_instances_inner p (i # insts) s =
     (case Tags i of
        None \<Rightarrow> (s, Some (KeyError ''Tags''))
      | Some [] \<Rightarrow> (s, Some IndexError)
      | Some (t # ts) \<Rightarrow>
          if Value t = Some ''true'' then start_ec2_instances_inner p insts s
          else
            let instance_name = Value t;
                instance_id = InstanceId i
            in (case start_instances p (calls s) [instance_id] of
                  Some e \<Rightarrow> (record_call (StartInstances [instance_id]) s, Some e)
                | None \<Rightarrow>
                    (case logger p (Info (''Started EC2 instance '' @ instance_id @ '' ('' @ py_str instance_name @ '')''))
                            (record_call (StartInstances [instance_id]) s) of
                       (s', Some e) \<Rightarrow> (s', Some e)
                     | (s', None) \<Rightarrow> start_ec2_instances_inner p insts s')))"

fun start_ec2_instances_outer :: "provider \<Rightarrow> reservation list \<Rightarrow> world \<Rightarrow> world \<times> exn option" where
  "start_ec2_instances_outer p [] s = (s, None)"
| "start_ec2_instances_outer p (r # rs) s =
     (case start_ec2_instances_inner p (Instances r) s of
        (s', Some e) \<Rightarrow> (s', Some e)
      | (s', None) \<Rightarrow> start_ec2_instances_outer p rs s')"

text \<open>The \<^verbatim>\<open>try\<close> block of \<^verbatim>\<open>start_ec2_instances\<close>.\<close>

definition start_ec2_instances_try :: "provider \<Rightarrow> world \<Rightarrow> world \<times> exn option" where
  "start_ec2_instances_try p s =
     (case describe_instances p (calls s) of
        Inl e \<Rightarrow> (record_call DescribeInstances s, Some e)
      | Inr response \<Rightarrow>
          if response \<noteq> [] then start_ec2_instances_outer p response (record_call DescribeInstances s)
          else (record_call DescribeInstances s, Some (Exception ''No EC2 Instance found!'')))"

text \<open>
  \<^verbatim>\<open>except Exception as e: self.logger.error(e)\<close>. An exception of this logging
  call is raised inside the handler, so it leaves the method.
\<close>

definition start_ec2_instances :: "provider \<Rightarrow> world \<Rightarrow> world \<times> exn option" where
  "start_ec2_instances p s =
     (case start_ec2_instances_try p s of
        (s', Some e) \<Rightarrow> logger p (ErrorExn e) s'
      | (s', None) \<Rightarrow> (s', None))"

fun stop_ec2_instances_inner :: "provider \<Rightarrow> ec2_instance list \<Rightarrow> world \<Rightarrow> world \<times> exn option" where
  "stop_ec2_instances_inner p [] s = (s, None)"
| "stop_ec2_instances_inner p (i # insts) s =
     (case Tags i of
        None \<Rightarrow> (s, Some (KeyError ''Tags''))
      | Some [] \<Rightarrow> (s, Some IndexError)
      | Some (t # ts) \<Rightarrow>
          if Value t = Some ''true'' then stop_ec2_instances_inner p insts s
          else
            let instance_name = Value t;
                instance_id = InstanceId i
            in (case stop_instances p (calls s) [instance_id] of
                  Some e \<Rightarrow> (record_call (StopInstances [instance_id]) s, Some e)
                | None \<Rightarrow>
                    (case logger p (Info (''Stopped EC2 instance '' @ instance_id @ '' ('' @ py_str instance_name @ '')''))
                            (record_call (StopInstances [instance_id]) s) of
                       (s', Some e) \<Rightarrow> (s', Some e)
                     | (s', None) \<Rightarrow> stop_ec2_instances_inner p insts s')))"

fun stop_ec2_instances_outer :: "provider \<Rightarrow> reservation list \<Rightarrow> world \<Rightarrow> world \<times> exn option" where
  "stop_ec2_instances_outer p [] s = (s, None)"
| "stop_ec2_instances_outer p (r # rs) s =
     (case stop_ec2_instances_inner p (Instances r) s of
        (s', Some e) \<Rightarrow> (s', Some e)
      | (s', None) \<Rightarrow> stop_ec2_instances_outer p rs s')"

definition stop_ec2_instances_try :: "provider \<Rightarrow> world \<Rightarrow> world \<times> exn option" where
  "stop_ec2_instances_try p s =
     (case describe_instances p (calls s) of
        Inl e \<Rightarrow> (record_call DescribeInstances s, Some e)
      | Inr response \<Rightarrow>
          if response \<noteq> [] then stop_ec2_instances_outer p response (record_call DescribeInstances s)
          else (record_call DescribeInstances s, Some (Exception ''No EC2 instances found!'')))"

definition stop_ec2_instances :: "provider \<Rightarrow> world \<Rightarrow> world \<times> exn option" where
  "stop_ec2_instances p s =
     (case stop_ec2_instances_try p s of
        (s', Some e) \<Rightarrow> logger p (ErrorExn e) s'
      | (s', None) \<Rightarrow> (s', None))"

section \<open>Database instances\<close>

text \<open>
  The \<^verbatim>\<open>for db_instance in response["DBInstances"]\<close> of \<^verbatim>\<open>start_rds_db\<close>, with
  its inner \<^verbatim>\<open>try\<close>, whose body \<open>start_rds_db_body\<close> holds the call of the client
  and \<^verbatim>\<open>logger.info\<close>.
  A \<^verbatim>\<open>ClientError\<close> whose code is \<^verbatim>\<open>InvalidDBInstanceState\<close> is logged and
  the loop goes on; any other \<^verbatim>\<open>ClientError\<close> is raised again, and an exception
  of another class is not caught here at all. An exception of the logging
  call in the handler leaves the loop.
\<close>

definition start_rds_db_body :: "provider \<Rightarrow> string \<Rightarrow> world \<Rightarrow> world \<times> exn option" where
  "start_rds_db_body p db_instance_id s =
     (case start_db_instance p (calls s) db_instance_id of
        Some e \<Rightarrow> (record_call (StartDBInstance db_instance_id) s, Some e)
      | None \<Rightarrow>
          logger p (Info (''Started RDS instance '' @ db_instance_id))
            (record_call (StartDBInstance db_instance_id) s))"

fun start_rds_db_loop :: "provider \<Rightarrow> db_instance list \<Rightarrow> world \<Rightarrow> world \<times> exn option" where
  "start_rds_db_loop p [] s = (s, None)"
| "start_rds_db_loop p (db_instance # dbs) s =
     (let db_instance_id = DBInstanceIdentifier db_instance
      in (case start_rds_db_body p db_instance_id s of
            (s', None) \<Rightarrow> start_rds_db_loop p dbs s'
          | (s', Some (ClientError code text)) \<Rightarrow>
              if code = ''InvalidDBInstanceState'' then
                (case logger p (Error (''RDS instance '' @ db_instance_id @ '' cannot be started as it is not in a valid state!'')) s' of
                   (s'', Some e) \<Rightarrow> (s'', Some e)
                 | (s'', None) \<Rightarrow> start_rds_db_loop p dbs s'')
              else (s', Some (ClientError code text))
          | (s', Some e) \<Rightarrow> (s', Some e)))"

definition start_rds_db_try :: "provider \<Rightarrow> world \<Rightarrow> world \<times> exn option" where
  "start_rds_db_try p s =
     (case describe_db_instances p (calls s) of
        Inl e \<Rightarrow> (record_call DescribeDBInstances s, Some e)
      | Inr response \<Rightarrow>
          if response \<noteq> [] then start_rds_db_loop p response (record_call DescribeDBInstances s)
          else (record_call DescribeDBInstances s, Some (Exception ''No RDS instances found.'')))"

definition start_rds_db :: "provider \<Rightarrow> world \<Rightarrow> world \<times> exn option" where
  "start_rds_db p s =
     (case start_rds_db_try p s of
        (s', Some e) \<Rightarrow> logger p (ErrorExn e) s'
      | (s', None) \<Rightarrow> (s', None))"

definition stop_rds_db_body :: "provider \<Rightarrow> string \<Rightarrow> world \<Rightarrow> world \<times> exn option" where
  "stop_rds_db_body p db_instance_id s =
     (case stop_db_instance p (calls s) db_instance_id of
        Some e \<Rightarrow> (record_call (StopDBInstance db_instance_id) s, Some e)
      | None \<Rightarrow>
          logger p (Info (''Stopped RDS instance '' @ db_instance_id))
            (record_call (StopDBInstance db_instance_id) s))"

fun stop_rds_db_loop :: "provider \<Rightarrow> db_instance list \<Rightarrow> world \<Rightarrow> world \<times> exn option" where
  "stop_rds_db_loop p [] s = (s, None)"
| "stop_rds_db_loop p (db_instance # dbs) s =
     (let db_instance_id = DBInstanceIdentifier db_instance
      in (case stop_rds_db_body p db_instance_id s of
            (s', None) \<Rightarrow> stop_rds_db_loop p dbs s'
          | (s', Some (ClientError code text)) \<Rightarrow>
              if code = ''InvalidDBInstanceState'' then
                (case logger p (Error (''RDS instance '' @ db_instance_id @ '' cannot be stopped as it is not in a valid state'')) s' of
                   (s'', Some e) \<Rightarrow> (s'', Some e)
                 | (s'', None) \<Rightarrow> stop_rds_db_loop p dbs s'')
              else (s', Some (ClientError code text))
          | (s', Some e) \<Rightarrow> (s', Some e)))"

definition stop_rds_db_try :: "provider \<Rightarrow> world \<Rightarrow> world \<times> exn option" where
  "stop_rds_db_try p s =
     (case describe_db_instances p (calls s) of
        Inl e \<Rightarrow> (record_call DescribeDBInstances s, Some e)
      | Inr response \<Rightarrow>
          if response \<noteq> [] then stop_rds_db_loop p response (record_call DescribeDBInstances s)
          else (record_call DescribeDBInstances s, Some (Exception ''No RDS instances found.'')))"

definition stop_rds_db :: "provider \<Rightarrow> world \<Rightarrow> world \<times> exn option" where
  "stop_rds_db p s =
     (case stop_rds_db_try p s of
        (s', Some e) \<Rightarrow> logger p (ErrorExn e) s'
      | (s', None) \<Rightarrow> (s', None))"

section \<open>Scaling groups\<close>

text \<open>Python's \<^verbatim>\<open>str\<close> on an integer: decimal digits, with a sign when negative.\<close>

fun str_nat :: "nat \<Rightarrow> string" where
  "str_nat n =
     (if n < 10 then [''0123456789'' ! n]
      else str_nat (n div 10) @ [''0123456789'' ! (n mod 10)])"

definition str_int :: "int \<Rightarrow> string" where
  "str_int i = (if i < 0 then CHR ''-'' # str_nat (nat (- i)) else str_nat (nat i))"

text \<open>
  The \<^verbatim>\<open>for asg in asg_response["AutoScalingGroups"]\<close> of
  \<^verbatim>\<open>ec2_asg_desired_capacity\<close>: an exception of the update is logged and raised
  again, which leaves the loop. When the logging call in the handler raises,
  its exception leaves instead; \<^verbatim>\<open>logger.info\<close> stands outside the \<^verbatim>\<open>try\<close>.
\<close>

fun ec2_asg_desired_capacity_loop ::
  "provider \<Rightarrow> int \<Rightarrow> int \<Rightarrow> int \<Rightarrow> asg list \<Rightarrow> world \<Rightarrow> world \<times> exn option" where
  "ec2_asg_desired_capacity_loop p desired_count min_count max_count [] s = (s, None)"
| "ec2_asg_desired_capacity_loop p desired_count min_count max_count (g # gs) s =
     (let current_capacity = DesiredCapacity g
      in (case update_auto_scaling_group p (calls s) (AutoScalingGroupName g) min_count max_count desired_count of
            Some e \<Rightarrow>
              (case logger p (ErrorFmt (''Error occurred while updating Auto Scaling Group '' @ AutoScalingGroupName g @ '': '') e)
                      (record_call (UpdateAutoScalingGroup (AutoScalingGroupName g) min_count max_count desired_count) s) of
                 (s', Some e') \<Rightarrow> (s', Some e')
               | (s', None) \<Rightarrow> (s', Some e))
          | None \<Rightarrow>
              (case logger p (Info (''Capacity updated for Auto Scaling Group '' @ AutoScalingGroupName g @ '': from ''
                                     @ str_int current_capacity @ '' to '' @ str_int desired_count))
                      (record_call (UpdateAutoScalingGroup (AutoScalingGroupName g) min_count max_count desired_count) s) of
                 (s', Some e') \<Rightarrow> (s', Some e')
               | (s', None) \<Rightarrow> ec2_asg_desired_capacity_loop p desired_count min_count max_count gs s')))"

text \<open>The parameters are in the order of the source: desired, minimum, maximum.\<close>

definition ec2_asg_desired_capacity :: "provider \<Rightarrow> int \<Rightarrow> int \<Rightarrow> int \<Rightarrow> world \<Rightarrow> world \<times> exn option" where
  "ec2_asg_desired_capacity p desired_count min_count max_count s =
     (case describe_auto_scaling_groups p (calls s) of
        Inl e \<Rightarrow>
          (case logger p (ErrorFmt ''Error occurred while retrieving Auto Scaling Groups: '' e)
                  (record_call DescribeAutoScalingGroups s) of
             (s', Some e') \<Rightarrow> (s', Some e')
           | (s', None) \<Rightarrow> (s', Some e))
      | Inr asg_response \<Rightarrow>
          ec2_asg_desired_capacity_loop p desired_count min_count max_count asg_response
            (record_call DescribeAutoScalingGroups s))"

section \<open>All resources\<close>

text \<open>
  Three statements in a row: an exception of one of them skips the ones
  after it.
\<close>

definition stop_all_resources :: "provider \<Rightarrow> world \<Rightarrow> world \<times> exn option" where
  "stop_all_resources p s =
     (case stop_ec2_instances p s of
        (s1, Some e) \<Rightarrow> (s1, Some e)
      | (s1, None) \<Rightarrow>
          (case stop_rds_db p s1 of
             (s2, Some e) \<Rightarrow> (s2, Some e)
           | (s2, None) \<Rightarrow> ec2_asg_desired_capacity p 0 0 0 s2))"

definition start_all_resources :: "provider \<Rightarrow> world \<Rightarrow> world \<times> exn option" where
  "start_all_resources p s =
     (case start_ec2_instances p s of
        (s1, Some e) \<Rightarrow> (s1, Some e)
      | (s1, None) \<Rightarrow>
          (case start_rds_db p s1 of
             (s2, Some e) \<Rightarrow> (s2, Some e)
           | (s2, None) \<Rightarrow> ec2_asg_desired_capacity p 0 2 1 s2))"

section \<open>Status queries\<close>

definition add_row :: "string option list \<Rightarrow> table \<Rightarrow> table" where
  "add_row r t = t\<lparr>rows := rows t @ [r]\<rparr>"

text \<open>
  \<^verbatim>\<open>for i in instance['Tags']\<close> of \<^verbatim>\<open>check_ec2_status\<close>. The local variable
  \<^verbatim>\<open>instance_name\<close> is \<open>None\<close> while it is unbound and \<open>Some v\<close> once it holds
  \<open>v\<close>; it belongs to the method, so it keeps its value from one instance to
  the next.
\<close>

fun check_ec2_status_tags :: "tag list \<Rightarrow> string option option \<Rightarrow> string option option" where
  "check_ec2_status_tags [] instance_name = instance_name"
| "check_ec2_status_tags (i # ts) instance_name =
     (if Key i = Some ''Name'' then check_ec2_status_tags ts (Some (Value i))
      else check_ec2_status_tags ts instance_name)"

fun check_ec2_status_inner ::
  "ec2_instance list \<Rightarrow> string option option \<times> table \<Rightarrow> exn + string option option \<times> table" where
  "check_ec2_status_inner [] st = Inr st"
| "check_ec2_status_inner (i # insts) (instance_name, tbl) =
     (case Tags i of
        None \<Rightarrow> Inl (KeyError ''Tags'')
      | Some ts \<Rightarrow>
          let instance_name = check_ec2_status_tags ts instance_name;
              instance_id = InstanceId i;
              instance_type = InstanceType i;
              state = State_Name i
          in (case instance_name of
                None \<Rightarrow> Inl (UnboundLocalError ''instance_name'')
              | Some v \<Rightarrow>
                  check_ec2_status_inner insts
                    (instance_name, add_row [Some instance_id, Some instance_type, v, Some state] tbl)))"

fun check_ec2_status_outer ::
  "reservation list \<Rightarrow> string option option \<times> table \<Rightarrow> exn + string option option \<times> table" where
  "check_ec2_status_outer [] st = Inr st"
| "check_ec2_status_outer (r # rs) st =
     (case check_ec2_status_inner (Instances r) st of
        Inl e \<Rightarrow> Inl e
      | Inr st' \<Rightarrow> check_ec2_status_outer rs st')"

definition check_ec2_status :: "provider \<Rightarrow> world \<Rightarrow> world \<times> (exn + table)" where
  "check_ec2_status p s =
     (case describe_instances p (calls s) of
        Inl e \<Rightarrow> (record_call DescribeInstances s, Inl e)
      | Inr ec2_response \<Rightarrow>
          let tbl = \<lparr>title = ''EC2 Instances'',
                     columns = [''Instance ID'', ''Instance Type'', ''Instance Name'', ''State''],
                     rows = []\<rparr>
          in if ec2_response \<noteq> [] then
               (case check_ec2_status_outer ec2_response (None, tbl) of
                  Inl e \<Rightarrow> (record_call DescribeInstances s, Inl e)
                | Inr (instance_name, tbl') \<Rightarrow> (record_call DescribeInstances s, Inr tbl'))
             else (record_call DescribeInstances s, Inr tbl))"

fun check_rds_status_loop :: "db_instance list \<Rightarrow> table \<Rightarrow> table" where
  "check_rds_status_loop [] tbl = tbl"
| "check_rds_status_loop (db_instance # dbs) tbl =
     (let db_instance_id = DBInstanceIdentifier db_instance;
          db_instance_class = DBInstanceClass db_instance;
          db_instance_status = DBInstanceStatus db_instance
      in check_rds_status_loop dbs
           (add_row [Some db_instance_id, Some db_instance_class, Some db_instance_status] tbl))"

definition check_rds_status :: "provider \<Rightarrow> world \<Rightarrow> world \<times> (exn + table)" where
  "check_rds_status p s =
     (case describe_db_instances p (calls s) of
        Inl e \<Rightarrow> (record_call DescribeDBInstances s, Inl e)
      | Inr rds_response \<Rightarrow>
          let tbl = \<lparr>title = ''RDS Instances'',
                     columns = [''DB Instance ID'', ''DB Instance Class'', ''Status''],
                     rows = []\<rparr>
          in if rds_response \<noteq> [] then
               (record_call DescribeDBInstances s, Inr (check_rds_status_loop rds_response tbl))
             else (record_call DescribeDBInstances s, Inr tbl))"

fun check_asg_status_loop :: "asg list \<Rightarrow> table \<Rightarrow> table" where
  "check_asg_status_loop [] tbl = tbl"
| "check_asg_status_loop (g # gs) tbl =
     (let asg_name = AutoScalingGroupName g;
          current_min_capacity = MinSize g;
          current_max_capacity = MaxSize g;
          current_desired_capacity = DesiredCapacity g
      in check_asg_status_loop gs
           (add_row [Some asg_name, Some (str_int current_min_capacity), Some (str_int current_max_capacity),
                     Some (str_int current_desired_capacity)] tbl))"

definition check_asg_status :: "provider \<Rightarrow> world \<Rightarrow> world \<times> (exn + table)" where
  "check_asg_status p s =
     (case describe_auto_scaling_groups p (calls s) of
        Inl e \<Rightarrow> (record_call DescribeAutoScalingGroups s, Inl e)
      | Inr asg_response \<Rightarrow>
          let tbl = \<lparr>title = ''Auto Scaling Groups'',
                     columns = [''ASG Name'', ''Min Capacity'', ''Max Capacity'', ''Desired Capacity''],
                     rows = []\<rparr>
          in (record_call DescribeAutoScalingGroups s, Inr (check_asg_status_loop asg_response tbl)))"

text \<open>
  \<^verbatim>\<open>print(table)\<close>, which is the \<^verbatim>\<open>print\<close> of \<^verbatim>\<open>rich\<close>. To find the widths of
  the columns it renders every cell as console markup, column by column,
  before it writes anything; a cell that is \<^verbatim>\<open>None\<close> counts as the empty
  string. So a cell that the renderer refuses raises, and nothing is shown.
\<close>

definition cell_rejected :: "provider \<Rightarrow> string option \<Rightarrow> exn option" where
  "cell_rejected p c =
     (case c of
        None \<Rightarrow> None
      | Some m \<Rightarrow> if CHR ''['' \<in> set m then render_markup p m else None)"

fun first_rejected :: "provider \<Rightarrow> string option list \<Rightarrow> exn option" where
  "first_rejected p [] = None"
| "first_rejected p (c # cs) =
     (case cell_rejected p c of
        Some e \<Rightarrow> Some e
      | None \<Rightarrow> first_rejected p cs)"

definition rich_print :: "provider \<Rightarrow> table \<Rightarrow> world \<Rightarrow> world \<times> exn option" where
  "rich_print p tbl s =
     (case first_rejected p (concat (transpose (rows tbl))) of
        Some e \<Rightarrow> (s, Some e)
      | None \<Rightarrow> (show_ui (TablePrinted tbl) s, None))"

text \<open>Three tables, each printed before the next is built; no statement has a handler.\<close>

definition check_status :: "provider \<Rightarrow> world \<Rightarrow> world \<times> exn option" where
  "check_status p s =
     (case check_ec2_status p s of
        (s1, Inl e) \<Rightarrow> (s1, Some e)
      | (s1, Inr ec2_table) \<Rightarrow>
          (case rich_print p ec2_table s1 of
             (s1', Some e) \<Rightarrow> (s1', Some e)
           | (s1', None) \<Rightarrow>
               (case check_rds_status p s1' of
                  (s2, Inl e) \<Rightarrow> (s2, Some e)
                | (s2, Inr rds_table) \<Rightarrow>
                    (case rich_print p rds_table s2 of
                       (s2', Some e) \<Rightarrow> (s2', Some e)
                     | (s2', None) \<Rightarrow>
                         (case check_asg_status p s2' of
                            (s3, Inl e) \<Rightarrow> (s3, Some e)
                          | (s3, Inr asg_table) \<Rightarrow> rich_print p asg_table s3)))))"

section \<open>The menu\<close>

text \<open>
  \<^verbatim>\<open>with Progress(...) as progress\<close>: the display starts, the body runs, and
  the display stops whether the body returns or raises; the exception of the
  body goes on to the caller.
\<close>

definition with_progress :: "string \<Rightarrow> (world \<Rightarrow> world \<times> exn option) \<Rightarrow> world \<Rightarrow> world \<times> exn option" where
  "with_progress description body s =
     (case body (show_ui (ProgressStarted description) s) of
        (s', r) \<Rightarrow> (show_ui ProgressStopped s', r))"

text \<open>
  The \<^verbatim>\<open>if\<close>/\<^verbatim>\<open>elif\<close> chain of \<^verbatim>\<open>run_choice\<close>. No branch has a handler, so
  the prompt \<^verbatim>\<open>Press Enter to run another task...\<close> is reached only when the
  chosen operation returns.
\<close>

definition run_choice_dispatch :: "provider \<Rightarrow> string \<Rightarrow> world \<Rightarrow> world \<times> exn option" where
  "run_choice_dispatch p choice s =
     (if choice = ''0'' then
        with_progress ''[bold cyan]Checking Resource(EC2, RDS, ASG) status'' (check_status p)
          (show_ui (PanelPrinted ''[maroon]Checking status of AWS resources![/]'') (show_ui ClearScreen s))
      else if choice = ''1'' then
        with_progress ''[bold cyan]Stopping all resources'' (stop_all_resources p) s
      else if choice = ''2'' then
        with_progress ''[bold cyan]Starting all resources'' (start_all_resources p) s
      else if choice = ''3'' then
        with_progress ''[bold cyan]Starting EC2 Instances'' (start_ec2_instances p) s
      else if choice = ''4'' then
        with_progress ''[bold cyan]Stopping EC2 Instances'' (stop_ec2_instances p) s
      else if choice = ''5'' then
        with_progress ''[bold cyan]Starting RDS Instance'' (start_rds_db p) s
      else if choice = ''6'' then
        with_progress ''[bold cyan]Stopping RDS Instance'' (stop_rds_db p) s
      else if choice = ''7'' then
        with_progress ''[bold cyan]Scaling Auto Scaling Group up'' (ec2_asg_desired_capacity p 1 0 1) s
      else if choice = ''8'' then
        with_progress ''[bold cyan]Scaling Auto Scaling Group down'' (ec2_asg_desired_capacity p 0 0 0) s
      else (s, None))"

definition run_choice :: "provider \<Rightarrow> string \<Rightarrow> world \<Rightarrow> world \<times> exn option" where
  "run_choice p choice s =
     (case run_choice_dispatch p choice s of
        (s', Some e) \<Rightarrow> (s', Some e)
      | (s', None) \<Rightarrow>
          (show_ui (InputPrompt ''\<newline>[bold magenta]Press Enter to run another task...[/bold magenta]'') s', None))"

section \<open>Vocabulary of the properties\<close>

text \<open>
  The instances of a response in the order the two loops visit them, and the
  marker the start and stop loops look at: the value of the first tag is the
  string \<^verbatim>\<open>true\<close>.
\<close>

definition enumerated :: "reservation list \<Rightarrow> ec2_instance list" where
  "enumerated rs = concat (map Instances rs)"

definition first_tag_true :: "ec2_instance \<Rightarrow> bool" where
  "first_tag_true i = (case Tags i of Some (t # ts) \<Rightarrow> Value t = Some ''true'' | _ \<Rightarrow> False)"

definition has_first_tag :: "ec2_instance \<Rightarrow> bool" where
  "has_first_tag i = (case Tags i of Some (t # ts) \<Rightarrow> True | _ \<Rightarrow> False)"

definition unmarked :: "ec2_instance list \<Rightarrow> ec2_instance list" where
  "unmarked insts = filter (\<lambda>i. \<not> first_tag_true i) insts"

definition start_call :: "ec2_instance \<Rightarrow> call" where
  "start_call i = StartInstances [InstanceId i]"

definition stop_call :: "ec2_instance \<Rightarrow> call" where
  "stop_call i = StopInstances [InstanceId i]"

definition start_db_call :: "db_instance \<Rightarrow> call" where
  "start_db_call d = StartDBInstance (DBInstanceIdentifier d)"

definition stop_db_call :: "db_instance \<Rightarrow> call" where
  "stop_db_call d = StopDBInstance (DBInstanceIdentifier d)"

definition update_call :: "int \<Rightarrow> int \<Rightarrow> int \<Rightarrow> asg \<Rightarrow> call" where
  "update_call desired_count min_count max_count g =
     UpdateAutoScalingGroup (AutoScalingGroupName g) min_count max_count desired_count"

text \<open>
  A text without an opening bracket, and a handler that renders every message
  it is given.
\<close>

definition plain :: "string \<Rightarrow> bool" where
  "plain m = (CHR ''['' \<notin> set m)"

definition renders_all :: "provider \<Rightarrow> bool" where
  "renders_all p = (\<forall>m. render_markup p m = None)"

text \<open>
  \<open>start_passes p h insts\<close>: the loop of \<open>start_ec2_instances\<close> gets through the
  instances \<open>insts\<close> from the history \<open>h\<close>. Each of them has a first tag, and
  for each that is not marked the provider starts it and the handler shows the
  message of success. \<open>stop_passes\<close> is the same for stop.
\<close>

fun start_passes :: "provider \<Rightarrow> call list \<Rightarrow> ec2_instance list \<Rightarrow> bool" where
  "start_passes p h [] = True"
| "start_passes p h (i # insts) =
     (case Tags i of
        Some (t # ts) \<Rightarrow>
          if Value t = Some ''true'' then start_passes p h insts
          else start_instances p h [InstanceId i] = None
               \<and> rejects p (Info (''Started EC2 instance '' @ InstanceId i @ '' ('' @ py_str (Value t) @ '')'')) = None
               \<and> start_passes p (h @ [start_call i]) insts
      | _ \<Rightarrow> False)"

fun stop_passes :: "provider \<Rightarrow> call list \<Rightarrow> ec2_instance list \<Rightarrow> bool" where
  "stop_passes p h [] = True"
| "stop_passes p h (i # insts) =
     (case Tags i of
        Some (t # ts) \<Rightarrow>
          if Value t = Some ''true'' then stop_passes p h insts
          else stop_instances p h [InstanceId i] = None
               \<and> rejects p (Info (''Stopped EC2 instance '' @ InstanceId i @ '' ('' @ py_str (Value t) @ '')'')) = None
               \<and> stop_passes p (h @ [stop_call i]) insts
      | _ \<Rightarrow> False)"

text \<open>The provider's "invalid state": a \<^verbatim>\<open>ClientError\<close> with that error code.\<close>

definition invalid_state :: "exn \<Rightarrow> bool" where
  "invalid_state e = (case e of ClientError code text \<Rightarrow> code = ''InvalidDBInstanceState'' | _ \<Rightarrow> False)"

text \<open>
  \<open>start_db_continues p h dbs\<close>: asked to start the instances \<open>dbs\<close> one after
  the other, from the history \<open>h\<close>, the provider answers each call with
  success or with "invalid state". \<open>stop_db_continues\<close> is the same for stop,
  and \<open>updates_succeed\<close> says that every update of the groups succeeds.
\<close>

fun start_db_continues :: "provider \<Rightarrow> call list \<Rightarrow> db_instance list \<Rightarrow> bool" where
  "start_db_continues p h [] = True"
| "start_db_continues p h (d # ds) =
     ((case start_db_instance p h (DBInstanceIdentifier d) of None \<Rightarrow> True | Some e \<Rightarrow> invalid_state e)
      \<and> start_db_continues p (h @ [start_db_call d]) ds)"

fun stop_db_continues :: "provider \<Rightarrow> call list \<Rightarrow> db_instance list \<Rightarrow> bool" where
  "stop_db_continues p h [] = True"
| "stop_db_continues p h (d # ds) =
     ((case stop_db_instance p h (DBInstanceIdentifier d) of None \<Rightarrow> True | Some e \<Rightarrow> invalid_state e)
      \<and> stop_db_continues p (h @ [stop_db_call d]) ds)"

fun updates_succeed :: "provider \<Rightarrow> int \<Rightarrow> int \<Rightarrow> int \<Rightarrow> call list \<Rightarrow> asg list \<Rightarrow> bool" where
  "updates_succeed p desired_count min_count max_count h [] = True"
| "updates_succeed p desired_count min_count max_count h (g # gs) =
     (update_auto_scaling_group p h (AutoScalingGroupName g) min_count max_count desired_count = None
      \<and> updates_succeed p desired_count min_count max_count (h @ [update_call desired_count min_count max_count g]) gs)"




text \<open>The calls that change something at the provider.\<close>

fun mutating :: "call \<Rightarrow> bool" where
  "mutating (StartInstances ids) = True"
| "mutating (StopInstances ids) = True"
| "mutating (StartDBInstance d) = True"
| "mutating (StopDBInstance d) = True"
| "mutating (UpdateAutoScalingGroup n a b c) = True"
| "mutating DescribeInstances = False"
| "mutating DescribeDBInstances = False"
| "mutating DescribeAutoScalingGroups = False"

text \<open>The instance has a tag whose key is \<^verbatim>\<open>Name\<close>.\<close>

definition has_name_tag :: "ec2_instance \<Rightarrow> bool" where
  "has_name_tag i = (case Tags i of None \<Rightarrow> False | Some ts \<Rightarrow> list_ex (\<lambda>t. Key t = Some ''Name'') ts)"

section \<open>Test doubles\<close>

definition new_world :: world where
  "new_world = \<lparr>calls = [], log = [], screen = []\<rparr>"

text \<open>
  A provider with no resources, on which every call succeeds, and a handler
  that renders every message.
\<close>

definition empty_provider :: provider where
  "empty_provider =
     \<lparr>describe_instances = (\<lambda>h. Inr []),
      start_instances = (\<lambda>h ids. None),
      stop_instances = (\<lambda>h ids. None),
      describe_db_instances = (\<lambda>h. Inr []),
      start_db_instance = (\<lambda>h d. None),
      stop_db_instance = (\<lambda>h d. None),
      describe_auto_scaling_groups = (\<lambda>h. Inr []),
      update_auto_scaling_group = (\<lambda>h n a b c. None),
      render_markup = (\<lambda>m. None)\<rparr>"

definition name_tag :: "string \<Rightarrow> tag" where
  "name_tag v = \<lparr>Key = Some ''Name'', Value = Some v\<rparr>"

definition ecs_tag :: tag where
  "ecs_tag = \<lparr>Key = Some ''AmazonECSManaged'', Value = Some ''true''\<rparr>"

definition web1 :: ec2_instance where
  "web1 = \<lparr>Tags = Some [name_tag ''web-1''], InstanceId = ''i-1'', InstanceType = ''t3.micro'', State_Name = ''stopped''\<rparr>"

definition ecs2 :: ec2_instance where
  "ecs2 = \<lparr>Tags = Some [ecs_tag, name_tag ''ecs-2''], InstanceId = ''i-2'', InstanceType = ''t3.small'', State_Name = ''running''\<rparr>"

definition web3 :: ec2_instance where
  "web3 = \<lparr>Tags = Some [name_tag ''web-3''], InstanceId = ''i-3'', InstanceType = ''t3.micro'', State_Name = ''stopped''\<rparr>"

definition access_denied :: exn where
  "access_denied = ClientError ''AccessDenied'' ''An error occurred (AccessDenied)''"

definition invalid_db_state :: exn where
  "invalid_db_state = ClientError ''InvalidDBInstanceState'' ''An error occurred (InvalidDBInstanceState)''"

definition db :: "string \<Rightarrow> db_instance" where
  "db n = \<lparr>DBInstanceIdentifier = n, DBInstanceClass = ''db.t3.micro'', DBInstanceStatus = ''stopped''\<rparr>"

definition group :: "string \<Rightarrow> asg" where
  "group n = \<lparr>AutoScalingGroupName = n, MinSize = 0, MaxSize = 1, DesiredCapacity = 1\<rparr>"

text \<open>Three instances in two reservations, the second one marked; every call succeeds.\<close>

definition fleet :: "reservation list" where
  "fleet = [\<lparr>Instances = [web1, ecs2]\<rparr>, \<lparr>Instances = [web3]\<rparr>]"

definition fleet_provider :: provider where
  "fleet_provider = empty_provider\<lparr>describe_instances := (\<lambda>h. Inr fleet)\<rparr>"

text \<open>The same fleet, but starting or stopping \<^verbatim>\<open>i-1\<close> is refused.\<close>

definition refusing_provider :: provider where
  "refusing_provider =
     fleet_provider\<lparr>start_instances := (\<lambda>h ids. if ids = [''i-1''] then Some access_denied else None),
                    stop_instances := (\<lambda>h ids. if ids = [''i-1''] then Some access_denied else None)\<rparr>"

text \<open>Two databases; the second one is in a state in which it can be neither started nor stopped.\<close>

definition two_db_provider :: provider where
  "two_db_provider =
     empty_provider\<lparr>describe_db_instances := (\<lambda>h. Inr [db ''db-1'', db ''db-2'']),
                    start_db_instance := (\<lambda>h d. if d = ''db-2'' then Some invalid_db_state else None),
                    stop_db_instance := (\<lambda>h d. if d = ''db-2'' then Some invalid_db_state else None)\<rparr>"


text \<open>A provider that refuses every call; its handler renders every message.\<close>

definition unreachable_provider :: provider where
  "unreachable_provider =
     \<lparr>describe_instances = (\<lambda>h. Inl access_denied),
      start_instances = (\<lambda>h ids. Some access_denied),
      stop_instances = (\<lambda>h ids. Some access_denied),
      describe_db_instances = (\<lambda>h. Inl access_denied),
      start_db_instance = (\<lambda>h d. Some access_denied),
      stop_db_instance = (\<lambda>h d. Some access_denied),
      describe_auto_scaling_groups = (\<lambda>h. Inl access_denied),
      update_auto_scaling_group = (\<lambda>h n a b c. Some access_denied),
      render_markup = (\<lambda>m. None)\<rparr>"

text \<open>No instances, no databases, one scaling group.\<close>

definition one_group_provider :: provider where
  "one_group_provider = empty_provider\<lparr>describe_auto_scaling_groups := (\<lambda>h. Inr [group ''g1''])\<rparr>"

text \<open>The fleet, two databases and two scaling groups; every call succeeds.\<close>

definition busy_provider :: provider where
  "busy_provider =
     fleet_provider\<lparr>describe_db_instances := (\<lambda>h. Inr [db ''db-1'', db ''db-2'']),
                    describe_auto_scaling_groups := (\<lambda>h. Inr [group ''g1'', group ''g2''])\<rparr>"

text \<open>An instance with one tag, which is not its name.\<close>

definition ecs4 :: ec2_instance where
  "ecs4 = \<lparr>Tags = Some [ecs_tag], InstanceId = ''i-4'', InstanceType = ''t3.small'', State_Name = ''running''\<rparr>"

text \<open>The instance without a name comes first, or after a named one in a later reservation.\<close>

definition nameless_first_provider :: provider where
  "nameless_first_provider = empty_provider\<lparr>describe_instances := (\<lambda>h. Inr [\<lparr>Instances = [ecs4, web1]\<rparr>])\<rparr>"

definition nameless_later_provider :: provider where
  "nameless_later_provider =
     empty_provider\<lparr>describe_instances := (\<lambda>h. Inr [\<lparr>Instances = [web1]\<rparr>, \<lparr>Instances = [ecs4]\<rparr>])\<rparr>"

text \<open>The table \<open>check_ec2_status\<close> returns for the second of them.\<close>

definition nameless_later_table :: table where
  "nameless_later_table =
     \<lparr>title = ''EC2 Instances'',
      columns = [''Instance ID'', ''Instance Type'', ''Instance Name'', ''State''],
      rows = [[Some ''i-1'', Some ''t3.micro'', Some ''web-1'', Some ''stopped''],
              [Some ''i-4'', Some ''t3.small'', Some ''web-1'', Some ''running'']]\<rparr>"

text \<open>
  What the markup renderer answers on a line whose first tag is \<^verbatim>\<open>[/prod]\<close>: a
  closing tag that closes nothing, at the position where it stands.
\<close>

fun tag_position :: "string \<Rightarrow> string \<Rightarrow> nat \<Rightarrow> nat option" where
  "tag_position tag [] n = None"
| "tag_position tag (c # cs) n =
     (if take (length tag) (c # cs) = tag then Some n else tag_position tag cs (Suc n))"

definition prod_tag_error :: "nat \<Rightarrow> exn" where
  "prod_tag_error n =
     MarkupError (''closing tag '' @ [CHR 0x27] @ ''[/prod]'' @ [CHR 0x27] @ '' at position ''
                    @ str_nat n @ '' doesn'' @ [CHR 0x27] @ ''t match any open tag'')"

definition unmatched_prod_tag :: "string \<Rightarrow> exn option" where
  "unmatched_prod_tag m =
     (case tag_position ''[/prod]'' m 0 of None \<Rightarrow> None | Some n \<Rightarrow> Some (prod_tag_error n))"

text \<open>
  An instance named \<^verbatim>\<open>[/prod]\<close> beside two databases and two scaling groups;
  every call succeeds.
\<close>

definition prod9 :: ec2_instance where
  "prod9 = \<lparr>Tags = Some [name_tag ''[/prod]''], InstanceId = ''i-9'', InstanceType = ''t3.micro'', State_Name = ''running''\<rparr>"

definition prod_instance_provider :: provider where
  "prod_instance_provider =
     busy_provider\<lparr>describe_instances := (\<lambda>h. Inr [\<lparr>Instances = [prod9]\<rparr>]),
                   render_markup := unmatched_prod_tag\<rparr>"

text \<open>Two databases; starting or stopping the first is refused with a text that holds \<^verbatim>\<open>[/prod]\<close>.\<close>

definition denied_prod :: exn where
  "denied_prod = ClientError ''AccessDenied'' ''An error occurred (AccessDenied): no access to [/prod]''"

definition prod_error_provider :: provider where
  "prod_error_provider =
     empty_provider\<lparr>describe_db_instances := (\<lambda>h. Inr [db ''db-1'', db ''db-2'']),
                    start_db_instance := (\<lambda>h d. if d = ''db-1'' then Some denied_prod else None),
                    stop_db_instance := (\<lambda>h d. if d = ''db-1'' then Some denied_prod else None),
                    render_markup := unmatched_prod_tag\<rparr>"

text \<open>Two scaling groups; the first is named \<^verbatim>\<open>web[/prod]\<close> and the caller may not update it.\<close>

definition prod_group_provider :: provider where
  "prod_group_provider =
     empty_provider\<lparr>describe_auto_scaling_groups := (\<lambda>h. Inr [group ''web[/prod]'', group ''g2'']),
                    update_auto_scaling_group := (\<lambda>h n a b c. if n = ''web[/prod]'' then Some access_denied else None),
                    render_markup := unmatched_prod_tag\<rparr>"

section \<open>The world after a step\<close>

lemma calls_record_call [simp]: "calls (record_call c s) = calls s @ [c]"
  by (simp add: record_call_def)
lemma log_record_call [simp]: "log (record_call c s) = log s"
  by (simp add: record_call_def)
lemma screen_record_call [simp]: "screen (record_call c s) = screen s"
  by (simp add: record_call_def)
lemma calls_emitted [simp]: "calls (emitted r s) = calls s"
  by (simp add: emitted_def)
lemma log_emitted [simp]: "log (emitted r s) = log s @ [r]"
  by (simp add: emitted_def)
lemma screen_emitted [simp]: "screen (emitted r s) = screen s"
  by (simp add: emitted_def)
lemma calls_show_ui [simp]: "calls (show_ui u s) = calls s"
  by (simp add: show_ui_def)
lemma log_show_ui [simp]: "log (show_ui u s) = log s"
  by (simp add: show_ui_def)
lemma screen_show_ui [simp]: "screen (show_ui u s) = screen s @ [u]"
  by (simp add: show_ui_def)

section \<open>Logging calls\<close>

lemma logger_shown: "rejects p r = None \<Longrightarrow> logger p r s = (emitted r s, None)"
  by (simp add: logger_def)

lemma logger_raises: "rejects p r = Some e \<Longrightarrow> logger p r s = (s, Some e)"
  by (simp add: logger_def)

lemma calls_logger [simp]: "calls (fst (logger p r s)) = calls s"
  by (simp add: logger_def split: option.splits)

lemma screen_logger [simp]: "screen (fst (logger p r s)) = screen s"
  by (simp add: logger_def split: option.splits)

lemma log_logger: "prefix (log s) (log (fst (logger p r s)))"
  by (simp add: logger_def split: option.splits)

lemma rejects_plain: "plain (message r) \<Longrightarrow> rejects p r = None"
  by (simp add: rejects_def formatted_def plain_def)

lemma rejects_rendered: "renders_all p \<Longrightarrow> rejects p r = None"
  by (simp add: rejects_def renders_all_def)

section \<open>Starting and stopping compute instances\<close>

lemma unmarked_Nil: "unmarked [] = []"
  by (simp add: unmarked_def)

lemma unmarked_marked:
  "Tags i = Some (t # ts) \<Longrightarrow> Value t = Some ''true'' \<Longrightarrow> unmarked (i # insts) = unmarked insts"
  by (simp add: unmarked_def first_tag_true_def)

lemma unmarked_unmarked:
  "Tags i = Some (t # ts) \<Longrightarrow> Value t \<noteq> Some ''true'' \<Longrightarrow> unmarked (i # insts) = i # unmarked insts"
  by (simp add: unmarked_def first_tag_true_def)

lemma unmarked_append: "unmarked (xs @ ys) = unmarked xs @ unmarked ys"
  by (simp add: unmarked_def)

text \<open>One round of the inner loop, by the case it takes.\<close>

lemma start_inner_untagged:
  "Tags i = None \<Longrightarrow> start_ec2_instances_inner p (i # insts) s = (s, Some (KeyError ''Tags''))"
  by simp

lemma start_inner_no_tags:
  "Tags i = Some [] \<Longrightarrow> start_ec2_instances_inner p (i # insts) s = (s, Some IndexError)"
  by simp

lemma start_inner_marked:
  "Tags i = Some (t # ts) \<Longrightarrow> Value t = Some ''true'' \<Longrightarrow>
   start_ec2_instances_inner p (i # insts) s = start_ec2_instances_inner p insts s"
  by simp

lemma start_inner_raises:
  "Tags i = Some (t # ts) \<Longrightarrow> Value t \<noteq> Some ''true'' \<Longrightarrow>
   start_instances p (calls s) [InstanceId i] = Some e \<Longrightarrow>
   start_ec2_instances_inner p (i # insts) s = (record_call (start_call i) s, Some e)"
  by (simp add: start_call_def Let_def)

lemma start_inner_started:
  "Tags i = Some (t # ts) \<Longrightarrow> Value t \<noteq> Some ''true'' \<Longrightarrow>
   start_instances p (calls s) [InstanceId i] = None \<Longrightarrow>
   rejects p (Info (''Started EC2 instance '' @ InstanceId i @ '' ('' @ py_str (Value t) @ '')'')) = None \<Longrightarrow>
   start_ec2_instances_inner p (i # insts) s =
   start_ec2_instances_inner p insts
     (emitted (Info (''Started EC2 instance '' @ InstanceId i @ '' ('' @ py_str (Value t) @ '')''))
        (record_call (start_call i) s))"
  by (simp add: start_call_def Let_def logger_def)

lemma start_inner_unlogged:
  "Tags i = Some (t # ts) \<Longrightarrow> Value t \<noteq> Some ''true'' \<Longrightarrow>
   start_instances p (calls s) [InstanceId i] = None \<Longrightarrow>
   rejects p (Info (''Started EC2 instance '' @ InstanceId i @ '' ('' @ py_str (Value t) @ '')'')) = Some e \<Longrightarrow>
   start_ec2_instances_inner p (i # insts) s = (record_call (start_call i) s, Some e)"
  by (simp add: start_call_def Let_def logger_def)

lemma start_inner_calls:
  "\<exists>cs. calls (fst (start_ec2_instances_inner p insts s)) = calls s @ cs
        \<and> prefix cs (map start_call (unmarked insts))
        \<and> (snd (start_ec2_instances_inner p insts s) = None \<longrightarrow> cs = map start_call (unmarked insts))"
proof (induction insts arbitrary: s)
  case Nil
  show ?case by (simp add: unmarked_Nil)
next
  case (Cons i insts)
  show ?case
  proof (cases "Tags i")
    case None
    then show ?thesis by (simp only: start_inner_untagged) simp
  next
    case (Some tgs)
    show ?thesis
    proof (cases tgs)
      case Nil
      with Some show ?thesis by (simp only: start_inner_no_tags) simp
    next
      case tgs: (Cons t ts)
      with Some have T: "Tags i = Some (t # ts)" by simp
      show ?thesis
      proof (cases "Value t = Some ''true''")
        case True
        show ?thesis
          unfolding start_inner_marked [OF T True] unmarked_marked [OF T True]
          by (rule Cons.IH)
      next
        case False
        show ?thesis
        proof (cases "start_instances p (calls s) [InstanceId i]")
          case (Some e)
          show ?thesis
            unfolding start_inner_raises [OF T False Some] unmarked_unmarked [OF T False]
            by (intro exI [of _ "[start_call i]"]) simp
        next
          case None
          show ?thesis
          proof (cases "rejects p (Info (''Started EC2 instance '' @ InstanceId i @ '' ('' @ py_str (Value t) @ '')''))")
            case shown: None
            let ?s = "emitted (Info (''Started EC2 instance '' @ InstanceId i @ '' ('' @ py_str (Value t) @ '')''))
                         (record_call (start_call i) s)"
            from Cons.IH [of ?s] obtain cs where
              cs: "calls (fst (start_ec2_instances_inner p insts ?s)) = calls ?s @ cs
                  \<and> prefix cs (map start_call (unmarked insts))
                  \<and> (snd (start_ec2_instances_inner p insts ?s) = None \<longrightarrow> cs = map start_call (unmarked insts))"
              ..
            show ?thesis
              unfolding start_inner_started [OF T False None shown] unmarked_unmarked [OF T False]
              using cs by (intro exI [of _ "start_call i # cs"]) simp
          next
            case (Some e)
            show ?thesis
              unfolding start_inner_unlogged [OF T False None Some] unmarked_unmarked [OF T False]
              by (intro exI [of _ "[start_call i]"]) simp
          qed
        qed
      qed
    qed
  qed
qed

lemma start_inner_append:
  "start_ec2_instances_inner p (xs @ ys) s =
   (case start_ec2_instances_inner p xs s of
      (s', Some e) \<Rightarrow> (s', Some e)
    | (s', None) \<Rightarrow> start_ec2_instances_inner p ys s')"
proof (induction xs arbitrary: s)
  case Nil
  show ?case by simp
next
  case (Cons i xs)
  show ?case
  proof (cases "Tags i")
    case None
    show ?thesis
      unfolding append_Cons start_inner_untagged [OF None] by simp
  next
    case (Some tgs)
    show ?thesis
    proof (cases tgs)
      case Nil
      with Some have "Tags i = Some []" by simp
      then show ?thesis
        unfolding append_Cons by (simp only: start_inner_no_tags) simp
    next
      case tgs: (Cons t ts)
      with Some have T: "Tags i = Some (t # ts)" by simp
      show ?thesis
      proof (cases "Value t = Some ''true''")
        case True
        show ?thesis
          unfolding append_Cons start_inner_marked [OF T True] by (rule Cons.IH)
      next
        case False
        show ?thesis
        proof (cases "start_instances p (calls s) [InstanceId i]")
          case (Some e)
          show ?thesis
            unfolding append_Cons start_inner_raises [OF T False Some] by simp
        next
          case None
          show ?thesis
          proof (cases "rejects p (Info (''Started EC2 instance '' @ InstanceId i @ '' ('' @ py_str (Value t) @ '')''))")
            case shown: None
            show ?thesis
              unfolding append_Cons start_inner_started [OF T False None shown] by (rule Cons.IH)
          next
            case (Some e)
            show ?thesis
              unfolding append_Cons start_inner_unlogged [OF T False None Some] by simp
          qed
        qed
      qed
    qed
  qed
qed

lemma start_outer_flat:
  "start_ec2_instances_outer p rs s = start_ec2_instances_inner p (enumerated rs) s"
proof (induction rs arbitrary: s)
  case Nil
  show ?case by (simp add: enumerated_def)
next
  case (Cons r rs)
  have "enumerated (r # rs) = Instances r @ enumerated rs" by (simp add: enumerated_def)
  then show ?case
    by (simp add: start_inner_append Cons.IH split: prod.splits option.splits)
qed

lemma start_inner_passes:
  "start_passes p (calls s) insts \<Longrightarrow> snd (start_ec2_instances_inner p insts s) = None"
proof (induction insts arbitrary: s)
  case Nil
  show ?case by simp
next
  case (Cons i insts)
  from Cons.prems obtain t ts where T: "Tags i = Some (t # ts)"
    by (auto split: option.splits list.splits)
  show ?case
  proof (cases "Value t = Some ''true''")
    case True
    with Cons.prems T have "start_passes p (calls s) insts" by simp
    then show ?thesis
      unfolding start_inner_marked [OF T True] by (rule Cons.IH)
  next
    case False
    let ?r = "Info (''Started EC2 instance '' @ InstanceId i @ '' ('' @ py_str (Value t) @ '')'')"
    from Cons.prems T False have ok: "start_instances p (calls s) [InstanceId i] = None"
      and shown: "rejects p ?r = None"
      and rest: "start_passes p (calls s @ [start_call i]) insts"
      by simp_all
    from rest have "start_passes p (calls (emitted ?r (record_call (start_call i) s))) insts" by simp
    then show ?thesis
      unfolding start_inner_started [OF T False ok shown] by (rule Cons.IH)
  qed
qed

lemma start_inner_through:
  assumes "start_passes p (calls s) pre"
  shows "\<exists>s'. start_ec2_instances_inner p (pre @ rest) s = start_ec2_instances_inner p rest s'
           \<and> calls s' = calls s @ map start_call (unmarked pre)"
proof -
  obtain s' x where run: "start_ec2_instances_inner p pre s = (s', x)"
    by (cases "start_ec2_instances_inner p pre s")
  from start_inner_passes [OF assms] run have x: "x = None" by simp
  from start_inner_calls [of p pre s] obtain cs where
    "calls (fst (start_ec2_instances_inner p pre s)) = calls s @ cs
        \<and> prefix cs (map start_call (unmarked pre))
        \<and> (snd (start_ec2_instances_inner p pre s) = None \<longrightarrow> cs = map start_call (unmarked pre))"
    ..
  with run x have "calls s' = calls s @ map start_call (unmarked pre)" by simp
  with run x show ?thesis
    by (intro exI [of _ s']) (simp add: start_inner_append)
qed

lemma start_ec2_instances_calls_try:
  "calls (fst (start_ec2_instances p s)) = calls (fst (start_ec2_instances_try p s))"
  by (simp add: start_ec2_instances_def split: prod.splits option.splits)

lemma start_ec2_instances_try_nonempty:
  "describe_instances p (calls s) = Inr rs \<Longrightarrow> enumerated rs \<noteq> [] \<Longrightarrow>
   start_ec2_instances_try p s = start_ec2_instances_inner p (enumerated rs) (record_call DescribeInstances s)"
  by (cases "rs = []") (simp_all add: start_ec2_instances_try_def start_outer_flat enumerated_def)

lemma start_ec2_instances_calls:
  assumes "describe_instances p (calls s) = Inr rs"
  shows "\<exists>cs. calls (fst (start_ec2_instances p s)) = calls s @ DescribeInstances # cs
           \<and> prefix cs (map start_call (unmarked (enumerated rs)))"
proof (cases "rs = []")
  case True
  with assms have "calls (fst (start_ec2_instances p s)) = calls s @ [DescribeInstances]"
    by (simp add: start_ec2_instances_calls_try start_ec2_instances_try_def)
  then show ?thesis
    by (intro exI [of _ "[]"]) simp
next
  case False
  let ?s = "record_call DescribeInstances s"
  from False assms have body: "start_ec2_instances_try p s = start_ec2_instances_inner p (enumerated rs) ?s"
    by (simp add: start_ec2_instances_try_def start_outer_flat)
  from start_inner_calls [of p "enumerated rs" ?s] obtain cs where
    cs: "calls (fst (start_ec2_instances_inner p (enumerated rs) ?s)) = calls ?s @ cs
         \<and> prefix cs (map start_call (unmarked (enumerated rs)))
         \<and> (snd (start_ec2_instances_inner p (enumerated rs) ?s) = None
              \<longrightarrow> cs = map start_call (unmarked (enumerated rs)))"
    ..
  then show ?thesis
    by (intro exI [of _ cs]) (simp add: start_ec2_instances_calls_try body)
qed

lemma start_ec2_instances_complete:
  assumes "describe_instances p (calls s) = Inr rs"
    and "start_passes p (calls s @ [DescribeInstances]) (enumerated rs)"
  shows "calls (fst (start_ec2_instances p s))
         = calls s @ DescribeInstances # map start_call (unmarked (enumerated rs))"
proof (cases "rs = []")
  case True
  with assms(1) have "calls (fst (start_ec2_instances p s)) = calls s @ [DescribeInstances]"
    by (simp add: start_ec2_instances_calls_try start_ec2_instances_try_def)
  with True show ?thesis
    by (simp add: enumerated_def unmarked_Nil)
next
  case False
  let ?s = "record_call DescribeInstances s"
  from False assms(1) have body: "start_ec2_instances_try p s = start_ec2_instances_inner p (enumerated rs) ?s"
    by (simp add: start_ec2_instances_try_def start_outer_flat)
  from assms(2) have "start_passes p (calls ?s) (enumerated rs)" by simp
  from start_inner_through [OF this, of "[]"] show ?thesis
    by (auto simp: start_ec2_instances_calls_try body)
qed

lemma start_ec2_instances_aborts:
  assumes "describe_instances p (calls s) = Inr rs"
    and "enumerated rs = pre @ i # post"
    and "start_passes p (calls s @ [DescribeInstances]) pre"
    and "has_first_tag i" and "\<not> first_tag_true i"
    and "start_instances p (calls s @ DescribeInstances # map start_call (unmarked pre)) [InstanceId i] = Some e"
  shows "calls (fst (start_ec2_instances p s))
         = calls s @ DescribeInstances # map start_call (unmarked pre @ [i])"
proof -
  let ?s = "record_call DescribeInstances s"
  from assms(2) have "enumerated rs \<noteq> []" by simp
  from start_ec2_instances_try_nonempty [OF assms(1) this] assms(2)
  have body: "start_ec2_instances_try p s = start_ec2_instances_inner p (pre @ i # post) ?s"
    by simp
  from assms(3) have "start_passes p (calls ?s) pre" by simp
  from start_inner_through [OF this, of "i # post"] obtain s' where
    s': "start_ec2_instances_inner p (pre @ i # post) ?s = start_ec2_instances_inner p (i # post) s'
         \<and> calls s' = calls ?s @ map start_call (unmarked pre)"
    ..
  then have c: "calls s' = calls s @ DescribeInstances # map start_call (unmarked pre)" by simp
  from assms(4,5) obtain t ts where T: "Tags i = Some (t # ts)" and V: "Value t \<noteq> Some ''true''"
    by (auto simp: has_first_tag_def first_tag_true_def split: option.splits list.splits)
  from assms(6) c have "start_instances p (calls s') [InstanceId i] = Some e" by simp
  from start_inner_raises [OF T V this, of post] s' body
  have "start_ec2_instances_try p s = (record_call (start_call i) s', Some e)" by simp
  with c show ?thesis
    by (simp add: start_ec2_instances_calls_try unmarked_append unmarked_Nil unmarked_unmarked [OF T V])
qed

lemma stop_inner_untagged:
  "Tags i = None \<Longrightarrow> stop_ec2_instances_inner p (i # insts) s = (s, Some (KeyError ''Tags''))"
  by simp

lemma stop_inner_no_tags:
  "Tags i = Some [] \<Longrightarrow> stop_ec2_instances_inner p (i # insts) s = (s, Some IndexError)"
  by simp

lemma stop_inner_marked:
  "Tags i = Some (t # ts) \<Longrightarrow> Value t = Some ''true'' \<Longrightarrow>
   stop_ec2_instances_inner p (i # insts) s = stop_ec2_instances_inner p insts s"
  by simp

lemma stop_inner_raises:
  "Tags i = Some (t # ts) \<Longrightarrow> Value t \<noteq> Some ''true'' \<Longrightarrow>
   stop_instances p (calls s) [InstanceId i] = Some e \<Longrightarrow>
   stop_ec2_instances_inner p (i # insts) s = (record_call (stop_call i) s, Some e)"
  by (simp add: stop_call_def Let_def)

lemma stop_inner_started:
  "Tags i = Some (t # ts) \<Longrightarrow> Value t \<noteq> Some ''true'' \<Longrightarrow>
   stop_instances p (calls s) [InstanceId i] = None \<Longrightarrow>
   rejects p (Info (''Stopped EC2 instance '' @ InstanceId i @ '' ('' @ py_str (Value t) @ '')'')) = None \<Longrightarrow>
   stop_ec2_instances_inner p (i # insts) s =
   stop_ec2_instances_inner p insts
     (emitted (Info (''Stopped EC2 instance '' @ InstanceId i @ '' ('' @ py_str (Value t) @ '')''))
        (record_call (stop_call i) s))"
  by (simp add: stop_call_def Let_def logger_def)

lemma stop_inner_unlogged:
  "Tags i = Some (t # ts) \<Longrightarrow> Value t \<noteq> Some ''true'' \<Longrightarrow>
   stop_instances p (calls s) [InstanceId i] = None \<Longrightarrow>
   rejects p (Info (''Stopped EC2 instance '' @ InstanceId i @ '' ('' @ py_str (Value t) @ '')'')) = Some e \<Longrightarrow>
   stop_ec2_instances_inner p (i # insts) s = (record_call (stop_call i) s, Some e)"
  by (simp add: stop_call_def Let_def logger_def)

lemma stop_inner_calls:
  "\<exists>cs. calls (fst (stop_ec2_instances_inner p insts s)) = calls s @ cs
        \<and> prefix cs (map stop_call (unmarked insts))
        \<and> (snd (stop_ec2_instances_inner p insts s) = None \<longrightarrow> cs = map stop_call (unmarked insts))"
proof (induction insts arbitrary: s)
  case Nil
  show ?case by (simp add: unmarked_Nil)
next
  case (Cons i insts)
  show ?case
  proof (cases "Tags i")
    case None
    then show ?thesis by (simp only: stop_inner_untagged) simp
  next
    case (Some tgs)
    show ?thesis
    proof (cases tgs)
      case Nil
      with Some show ?thesis by (simp only: stop_inner_no_tags) simp
    next
      case tgs: (Cons t ts)
      with Some have T: "Tags i = Some (t # ts)" by simp
      show ?thesis
      proof (cases "Value t = Some ''true''")
        case True
        show ?thesis
          unfolding stop_inner_marked [OF T True] unmarked_marked [OF T True]
          by (rule Cons.IH)
      next
        case False
        show ?thesis
        proof (cases "stop_instances p (calls s) [InstanceId i]")
          case (Some e)
          show ?thesis
            unfolding stop_inner_raises [OF T False Some] unmarked_unmarked [OF T False]
            by (intro exI [of _ "[stop_call i]"]) simp
        next
          case None
          show ?thesis
          proof (cases "rejects p (Info (''Stopped EC2 instance '' @ InstanceId i @ '' ('' @ py_str (Value t) @ '')''))")
            case shown: None
            let ?s = "emitted (Info (''Stopped EC2 instance '' @ InstanceId i @ '' ('' @ py_str (Value t) @ '')''))
                         (record_call (stop_call i) s)"
            from Cons.IH [of ?s] obtain cs where
              cs: "calls (fst (stop_ec2_instances_inner p insts ?s)) = calls ?s @ cs
                  \<and> prefix cs (map stop_call (unmarked insts))
                  \<and> (snd (stop_ec2_instances_inner p insts ?s) = None \<longrightarrow> cs = map stop_call (unmarked insts))"
              ..
            show ?thesis
              unfolding stop_inner_started [OF T False None shown] unmarked_unmarked [OF T False]
              using cs by (intro exI [of _ "stop_call i # cs"]) simp
          next
            case (Some e)
            show ?thesis
              unfolding stop_inner_unlogged [OF T False None Some] unmarked_unmarked [OF T False]
              by (intro exI [of _ "[stop_call i]"]) simp
          qed
        qed
      qed
    qed
  qed
qed

lemma stop_inner_append:
  "stop_ec2_instances_inner p (xs @ ys) s =
   (case stop_ec2_instances_inner p xs s of
      (s', Some e) \<Rightarrow> (s', Some e)
    | (s', None) \<Rightarrow> stop_ec2_instances_inner p ys s')"
proof (induction xs arbitrary: s)
  case Nil
  show ?case by simp
next
  case (Cons i xs)
  show ?case
  proof (cases "Tags i")
    case None
    show ?thesis
      unfolding append_Cons stop_inner_untagged [OF None] by simp
  next
    case (Some tgs)
    show ?thesis
    proof (cases tgs)
      case Nil
      with Some have "Tags i = Some []" by simp
      then show ?thesis
        unfolding append_Cons by (simp only: stop_inner_no_tags) simp
    next
      case tgs: (Cons t ts)
      with Some have T: "Tags i = Some (t # ts)" by simp
      show ?thesis
      proof (cases "Value t = Some ''true''")
        case True
        show ?thesis
          unfolding append_Cons stop_inner_marked [OF T True] by (rule Cons.IH)
      next
        case False
        show ?thesis
        proof (cases "stop_instances p (calls s) [InstanceId i]")
          case (Some e)
          show ?thesis
            unfolding append_Cons stop_inner_raises [OF T False Some] by simp
        next
          case None
          show ?thesis
          proof (cases "rejects p (Info (''Stopped EC2 instance '' @ InstanceId i @ '' ('' @ py_str (Value t) @ '')''))")
            case shown: None
            show ?thesis
              unfolding append_Cons stop_inner_started [OF T False None shown] by (rule Cons.IH)
          next
            case (Some e)
            show ?thesis
              unfolding append_Cons stop_inner_unlogged [OF T False None Some] by simp
          qed
        qed
      qed
    qed
  qed
qed

lemma stop_outer_flat:
  "stop_ec2_instances_outer p rs s = stop_ec2_instances_inner p (enumerated rs) s"
proof (induction rs arbitrary: s)
  case Nil
  show ?case by (simp add: enumerated_def)
next
  case (Cons r rs)
  have "enumerated (r # rs) = Instances r @ enumerated rs" by (simp add: enumerated_def)
  then show ?case
    by (simp add: stop_inner_append Cons.IH split: prod.splits option.splits)
qed

lemma stop_inner_passes:
  "stop_passes p (calls s) insts \<Longrightarrow> snd (stop_ec2_instances_inner p insts s) = None"
proof (induction insts arbitrary: s)
  case Nil
  show ?case by simp
next
  case (Cons i insts)
  from Cons.prems obtain t ts where T: "Tags i = Some (t # ts)"
    by (auto split: option.splits list.splits)
  show ?case
  proof (cases "Value t = Some ''true''")
    case True
    with Cons.prems T have "stop_passes p (calls s) insts" by simp
    then show ?thesis
      unfolding stop_inner_marked [OF T True] by (rule Cons.IH)
  next
    case False
    let ?r = "Info (''Stopped EC2 instance '' @ InstanceId i @ '' ('' @ py_str (Value t) @ '')'')"
    from Cons.prems T False have ok: "stop_instances p (calls s) [InstanceId i] = None"
      and shown: "rejects p ?r = None"
      and rest: "stop_passes p (calls s @ [stop_call i]) insts"
      by simp_all
    from rest have "stop_passes p (calls (emitted ?r (record_call (stop_call i) s))) insts" by simp
    then show ?thesis
      unfolding stop_inner_started [OF T False ok shown] by (rule Cons.IH)
  qed
qed

lemma stop_inner_through:
  assumes "stop_passes p (calls s) pre"
  shows "\<exists>s'. stop_ec2_instances_inner p (pre @ rest) s = stop_ec2_instances_inner p rest s'
           \<and> calls s' = calls s @ map stop_call (unmarked pre)"
proof -
  obtain s' x where run: "stop_ec2_instances_inner p pre s = (s', x)"
    by (cases "stop_ec2_instances_inner p pre s")
  from stop_inner_passes [OF assms] run have x: "x = None" by simp
  from stop_inner_calls [of p pre s] obtain cs where
    "calls (fst (stop_ec2_instances_inner p pre s)) = calls s @ cs
        \<and> prefix cs (map stop_call (unmarked pre))
        \<and> (snd (stop_ec2_instances_inner p pre s) = None \<longrightarrow> cs = map stop_call (unmarked pre))"
    ..
  with run x have "calls s' = calls s @ map stop_call (unmarked pre)" by simp
  with run x show ?thesis
    by (intro exI [of _ s']) (simp add: stop_inner_append)
qed

lemma stop_ec2_instances_calls_try:
  "calls (fst (stop_ec2_instances p s)) = calls (fst (stop_ec2_instances_try p s))"
  by (simp add: stop_ec2_instances_def split: prod.splits option.splits)

lemma stop_ec2_instances_try_nonempty:
  "describe_instances p (calls s) = Inr rs \<Longrightarrow> enumerated rs \<noteq> [] \<Longrightarrow>
   stop_ec2_instances_try p s = stop_ec2_instances_inner p (enumerated rs) (record_call DescribeInstances s)"
  by (cases "rs = []") (simp_all add: stop_ec2_instances_try_def stop_outer_flat enumerated_def)

lemma stop_ec2_instances_calls:
  assumes "describe_instances p (calls s) = Inr rs"
  shows "\<exists>cs. calls (fst (stop_ec2_instances p s)) = calls s @ DescribeInstances # cs
           \<and> prefix cs (map stop_call (unmarked (enumerated rs)))"
proof (cases "rs = []")
  case True
  with assms have "calls (fst (stop_ec2_instances p s)) = calls s @ [DescribeInstances]"
    by (simp add: stop_ec2_instances_calls_try stop_ec2_instances_try_def)
  then show ?thesis
    by (intro exI [of _ "[]"]) simp
next
  case False
  let ?s = "record_call DescribeInstances s"
  from False assms have body: "stop_ec2_instances_try p s = stop_ec2_instances_inner p (enumerated rs) ?s"
    by (simp add: stop_ec2_instances_try_def stop_outer_flat)
  from stop_inner_calls [of p "enumerated rs" ?s] obtain cs where
    cs: "calls (fst (stop_ec2_instances_inner p (enumerated rs) ?s)) = calls ?s @ cs
         \<and> prefix cs (map stop_call (unmarked (enumerated rs)))
         \<and> (snd (stop_ec2_instances_inner p (enumerated rs) ?s) = None
              \<longrightarrow> cs = map stop_call (unmarked (enumerated rs)))"
    ..
  then show ?thesis
    by (intro exI [of _ cs]) (simp add: stop_ec2_instances_calls_try body)
qed

lemma stop_ec2_instances_complete:
  assumes "describe_instances p (calls s) = Inr rs"
    and "stop_passes p (calls s @ [DescribeInstances]) (enumerated rs)"
  shows "calls (fst (stop_ec2_instances p s))
         = calls s @ DescribeInstances # map stop_call (unmarked (enumerated rs))"
proof (cases "rs = []")
  case True
  with assms(1) have "calls (fst (stop_ec2_instances p s)) = calls s @ [DescribeInstances]"
    by (simp add: stop_ec2_instances_calls_try stop_ec2_instances_try_def)
  with True show ?thesis
    by (simp add: enumerated_def unmarked_Nil)
next
  case False
  let ?s = "record_call DescribeInstances s"
  from False assms(1) have body: "stop_ec2_instances_try p s = stop_ec2_instances_inner p (enumerated rs) ?s"
    by (simp add: stop_ec2_instances_try_def stop_outer_flat)
  from assms(2) have "stop_passes p (calls ?s) (enumerated rs)" by simp
  from stop_inner_through [OF this, of "[]"] show ?thesis
    by (auto simp: stop_ec2_instances_calls_try body)
qed

lemma stop_ec2_instances_aborts:
  assumes "describe_instances p (calls s) = Inr rs"
    and "enumerated rs = pre @ i # post"
    and "stop_passes p (calls s @ [DescribeInstances]) pre"
    and "has_first_tag i" and "\<not> first_tag_true i"
    and "stop_instances p (calls s @ DescribeInstances # map stop_call (unmarked pre)) [InstanceId i] = Some e"
  shows "calls (fst (stop_ec2_instances p s))
         = calls s @ DescribeInstances # map stop_call (unmarked pre @ [i])"
proof -
  let ?s = "record_call DescribeInstances s"
  from assms(2) have "enumerated rs \<noteq> []" by simp
  from stop_ec2_instances_try_nonempty [OF assms(1) this] assms(2)
  have body: "stop_ec2_instances_try p s = stop_ec2_instances_inner p (pre @ i # post) ?s"
    by simp
  from assms(3) have "stop_passes p (calls ?s) pre" by simp
  from stop_inner_through [OF this, of "i # post"] obtain s' where
    s': "stop_ec2_instances_inner p (pre @ i # post) ?s = stop_ec2_instances_inner p (i # post) s'
         \<and> calls s' = calls ?s @ map stop_call (unmarked pre)"
    ..
  then have c: "calls s' = calls s @ DescribeInstances # map stop_call (unmarked pre)" by simp
  from assms(4,5) obtain t ts where T: "Tags i = Some (t # ts)" and V: "Value t \<noteq> Some ''true''"
    by (auto simp: has_first_tag_def first_tag_true_def split: option.splits list.splits)
  from assms(6) c have "stop_instances p (calls s') [InstanceId i] = Some e" by simp
  from stop_inner_raises [OF T V this, of post] s' body
  have "stop_ec2_instances_try p s = (record_call (stop_call i) s', Some e)" by simp
  with c show ?thesis
    by (simp add: stop_ec2_instances_calls_try unmarked_append unmarked_Nil unmarked_unmarked [OF T V])
qed

text \<open>
  Claim C1, as the code has it. Let the enumeration succeed. No call is ever
  issued for an instance whose first tag value is \<^verbatim>\<open>true\<close>: the start calls of
  \<open>start_ec2_instances\<close> are a prefix of the list that has, in the order of the
  enumeration, one call for each instance that is not marked. The list is
  complete, each such instance getting exactly one call, when the loop gets
  through all the instances (\<open>start_passes\<close>). When it gets through the
  instances \<open>pre\<close> and the provider then refuses to start \<open>i\<close>, the calls end
  with the one for \<open>i\<close>: the exception leaves both loops and no instance
  enumerated after \<open>i\<close> gets a call. The same holds for \<open>stop_ec2_instances\<close>
  and the stop calls.
\<close>

theorem ec2_calls_skip_marked:
  assumes "describe_instances p (calls s) = Inr rs"
  shows "(\<exists>cs. calls (fst (start_ec2_instances p s)) = calls s @ DescribeInstances # cs
            \<and> prefix cs (map start_call (unmarked (enumerated rs))))
       \<and> (start_passes p (calls s @ [DescribeInstances]) (enumerated rs) \<longrightarrow>
            calls (fst (start_ec2_instances p s))
              = calls s @ DescribeInstances # map start_call (unmarked (enumerated rs)))
       \<and> (enumerated rs = pre @ i # post \<and> start_passes p (calls s @ [DescribeInstances]) pre
            \<and> has_first_tag i \<and> \<not> first_tag_true i
            \<and> start_instances p (calls s @ DescribeInstances # map start_call (unmarked pre)) [InstanceId i] = Some e \<longrightarrow>
            calls (fst (start_ec2_instances p s))
              = calls s @ DescribeInstances # map start_call (unmarked pre @ [i]))
       \<and> (\<exists>cs. calls (fst (stop_ec2_instances p s)) = calls s @ DescribeInstances # cs
            \<and> prefix cs (map stop_call (unmarked (enumerated rs))))
       \<and> (stop_passes p (calls s @ [DescribeInstances]) (enumerated rs) \<longrightarrow>
            calls (fst (stop_ec2_instances p s))
              = calls s @ DescribeInstances # map stop_call (unmarked (enumerated rs)))
       \<and> (enumerated rs = pre @ i # post \<and> stop_passes p (calls s @ [DescribeInstances]) pre
            \<and> has_first_tag i \<and> \<not> first_tag_true i
            \<and> stop_instances p (calls s @ DescribeInstances # map stop_call (unmarked pre)) [InstanceId i] = Some e \<longrightarrow>
            calls (fst (stop_ec2_instances p s))
              = calls s @ DescribeInstances # map stop_call (unmarked pre @ [i]))"
proof (intro conjI impI)
  show "\<exists>cs. calls (fst (start_ec2_instances p s)) = calls s @ DescribeInstances # cs
            \<and> prefix cs (map start_call (unmarked (enumerated rs)))"
    using assms by (rule start_ec2_instances_calls)
  show "\<exists>cs. calls (fst (stop_ec2_instances p s)) = calls s @ DescribeInstances # cs
            \<and> prefix cs (map stop_call (unmarked (enumerated rs)))"
    using assms by (rule stop_ec2_instances_calls)
next
  assume "start_passes p (calls s @ [DescribeInstances]) (enumerated rs)"
  with assms show "calls (fst (start_ec2_instances p s))
              = calls s @ DescribeInstances # map start_call (unmarked (enumerated rs))"
    by (rule start_ec2_instances_complete)
next
  assume "stop_passes p (calls s @ [DescribeInstances]) (enumerated rs)"
  with assms show "calls (fst (stop_ec2_instances p s))
              = calls s @ DescribeInstances # map stop_call (unmarked (enumerated rs))"
    by (rule stop_ec2_instances_complete)
next
  assume "enumerated rs = pre @ i # post \<and> start_passes p (calls s @ [DescribeInstances]) pre
            \<and> has_first_tag i \<and> \<not> first_tag_true i
            \<and> start_instances p (calls s @ DescribeInstances # map start_call (unmarked pre)) [InstanceId i] = Some e"
  with assms show "calls (fst (start_ec2_instances p s))
              = calls s @ DescribeInstances # map start_call (unmarked pre @ [i])"
    by (intro start_ec2_instances_aborts [where rs = rs and post = post and e = e]) simp_all
next
  assume "enumerated rs = pre @ i # post \<and> stop_passes p (calls s @ [DescribeInstances]) pre
            \<and> has_first_tag i \<and> \<not> first_tag_true i
            \<and> stop_instances p (calls s @ DescribeInstances # map stop_call (unmarked pre)) [InstanceId i] = Some e"
  with assms show "calls (fst (stop_ec2_instances p s))
              = calls s @ DescribeInstances # map stop_call (unmarked pre @ [i])"
    by (intro stop_ec2_instances_aborts [where rs = rs and post = post and e = e]) simp_all
qed

theorem ec2_calls_skip_marked_witness:
  "describe_instances fleet_provider (calls new_world) = Inr fleet
   \<and> start_passes fleet_provider (calls new_world @ [DescribeInstances]) (enumerated fleet)
   \<and> stop_passes fleet_provider (calls new_world @ [DescribeInstances]) (enumerated fleet)
   \<and> calls (fst (start_ec2_instances fleet_provider new_world))
       = [DescribeInstances, StartInstances [''i-1''], StartInstances [''i-3'']]
   \<and> calls (fst (stop_ec2_instances fleet_provider new_world))
       = [DescribeInstances, StopInstances [''i-1''], StopInstances [''i-3'']]
   \<and> describe_instances refusing_provider (calls new_world) = Inr fleet
   \<and> enumerated fleet = [] @ web1 # [ecs2, web3]
   \<and> has_first_tag web1 \<and> \<not> first_tag_true web1
   \<and> start_instances refusing_provider [DescribeInstances] [InstanceId web1] = Some access_denied
   \<and> stop_instances refusing_provider [DescribeInstances] [InstanceId web1] = Some access_denied
   \<and> calls (fst (start_ec2_instances refusing_provider new_world)) = [DescribeInstances, StartInstances [''i-1'']]
   \<and> calls (fst (stop_ec2_instances refusing_provider new_world)) = [DescribeInstances, StopInstances [''i-1'']]"
proof -
  have d: "describe_instances fleet_provider (calls new_world) = Inr fleet"
    by (simp add: fleet_provider_def)
  have p1: "start_passes fleet_provider (calls new_world @ [DescribeInstances]) (enumerated fleet)"
    and p2: "stop_passes fleet_provider (calls new_world @ [DescribeInstances]) (enumerated fleet)"
    by code_simp+
  have expected:
    "calls new_world @ DescribeInstances # map start_call (unmarked (enumerated fleet))
       = [DescribeInstances, StartInstances [''i-1''], StartInstances [''i-3'']]"
    "calls new_world @ DescribeInstances # map stop_call (unmarked (enumerated fleet))
       = [DescribeInstances, StopInstances [''i-1''], StopInstances [''i-3'']]"
    by code_simp+
  note all = ec2_calls_skip_marked [OF d, unfolded expected]
  from all p1
  have started: "calls (fst (start_ec2_instances fleet_provider new_world))
       = [DescribeInstances, StartInstances [''i-1''], StartInstances [''i-3'']]"
    by simp
  from all p2
  have stopped: "calls (fst (stop_ec2_instances fleet_provider new_world))
       = [DescribeInstances, StopInstances [''i-1''], StopInstances [''i-3'']]"
    by simp
  have d': "describe_instances refusing_provider (calls new_world) = Inr fleet"
    by (simp add: refusing_provider_def fleet_provider_def)
  have e: "enumerated fleet = [] @ web1 # [ecs2, web3]"
    and t: "has_first_tag web1" "\<not> first_tag_true web1"
    and r1: "start_instances refusing_provider [DescribeInstances] [InstanceId web1] = Some access_denied"
    and r2: "stop_instances refusing_provider [DescribeInstances] [InstanceId web1] = Some access_denied"
    by code_simp+
  have h: "calls new_world @ DescribeInstances # map start_call (unmarked []) = [DescribeInstances]"
    "calls new_world @ DescribeInstances # map stop_call (unmarked []) = [DescribeInstances]"
    "calls new_world @ [DescribeInstances] = [DescribeInstances]"
    "calls new_world @ DescribeInstances # map start_call (unmarked [] @ [web1])
       = [DescribeInstances, StartInstances [''i-1'']]"
    "calls new_world @ DescribeInstances # map stop_call (unmarked [] @ [web1])
       = [DescribeInstances, StopInstances [''i-1'']]"
    by code_simp+
  note refused = ec2_calls_skip_marked [OF d', where pre = "[]" and i = web1 and post = "[ecs2, web3]"
      and e = access_denied, unfolded h]
  from refused e t r1
  have a1: "calls (fst (start_ec2_instances refusing_provider new_world)) = [DescribeInstances, StartInstances [''i-1'']]"
    by simp
  from refused e t r2
  have a2: "calls (fst (stop_ec2_instances refusing_provider new_world)) = [DescribeInstances, StopInstances [''i-1'']]"
    by simp
  from d p1 p2 started stopped d' e t r1 r2 a1 a2 show ?thesis
    by (intro conjI)
qed

text \<open>
  The claim as the specification words it asks for one call for every
  instance that is not marked. When the provider refuses to start (or stop)
  \<^verbatim>\<open>i-1\<close>, the exception leaves both loops, and \<^verbatim>\<open>i-3\<close>, which is not marked, is
  never started (or stopped).
\<close>

theorem ec2_unmarked_instance_not_started:
  "describe_instances refusing_provider (calls new_world) = Inr fleet
   \<and> web3 \<in> set (enumerated fleet) \<and> \<not> first_tag_true web3
   \<and> calls (fst (start_ec2_instances refusing_provider new_world)) = [DescribeInstances, StartInstances [''i-1'']]
   \<and> count_list (calls (fst (start_ec2_instances refusing_provider new_world))) (start_call web3) \<noteq> 1
   \<and> calls (fst (stop_ec2_instances refusing_provider new_world)) = [DescribeInstances, StopInstances [''i-1'']]
   \<and> count_list (calls (fst (stop_ec2_instances refusing_provider new_world))) (stop_call web3) \<noteq> 1"
  by code_simp

section \<open>Starting and stopping database instances\<close>

lemma start_rds_db_body_raises:
  "start_db_instance p (calls s) n = Some e \<Longrightarrow>
   start_rds_db_body p n s = (record_call (StartDBInstance n) s, Some e)"
  by (simp add: start_rds_db_body_def)

lemma start_rds_db_body_ok:
  "start_db_instance p (calls s) n = None \<Longrightarrow> plain n \<Longrightarrow>
   start_rds_db_body p n s =
   (emitted (Info (''Started RDS instance '' @ n)) (record_call (StartDBInstance n) s), None)"
  by (simp add: start_rds_db_body_def logger_shown rejects_plain message_def plain_def)

lemma start_rds_db_body_extends:
  "calls (fst (start_rds_db_body p n s)) = calls s @ [StartDBInstance n]
   \<and> prefix (log s) (log (fst (start_rds_db_body p n s)))"
  by (simp add: start_rds_db_body_def log_logger [where s = "record_call c s" for c, simplified]
        split: option.splits)

lemma start_rds_db_loop_ok:
  "start_db_instance p (calls s) (DBInstanceIdentifier d) = None \<Longrightarrow> plain (DBInstanceIdentifier d) \<Longrightarrow>
   start_rds_db_loop p (d # dbs) s =
   start_rds_db_loop p dbs
     (emitted (Info (''Started RDS instance '' @ DBInstanceIdentifier d)) (record_call (start_db_call d) s))"
  by (simp add: Let_def start_db_call_def start_rds_db_body_ok)

lemma start_rds_db_loop_invalid:
  "start_db_instance p (calls s) (DBInstanceIdentifier d) = Some e \<Longrightarrow> invalid_state e \<Longrightarrow>
   plain (DBInstanceIdentifier d) \<Longrightarrow>
   start_rds_db_loop p (d # dbs) s =
   start_rds_db_loop p dbs
     (emitted (Error (''RDS instance '' @ DBInstanceIdentifier d @ '' cannot be started as it is not in a valid state!''))
        (record_call (start_db_call d) s))"
  by (simp add: Let_def start_db_call_def start_rds_db_body_raises invalid_state_def logger_shown
        rejects_plain message_def plain_def split: exn.splits)

lemma start_rds_db_loop_fatal:
  "start_db_instance p (calls s) (DBInstanceIdentifier d) = Some e \<Longrightarrow> \<not> invalid_state e \<Longrightarrow>
   start_rds_db_loop p (d # dbs) s = (record_call (start_db_call d) s, Some e)"
  by (simp add: Let_def start_db_call_def start_rds_db_body_raises invalid_state_def split: exn.splits)

lemma start_rds_db_loop_extends:
  "prefix (calls s) (calls (fst (start_rds_db_loop p dbs s)))
   \<and> prefix (log s) (log (fst (start_rds_db_loop p dbs s)))"
proof (induction dbs arbitrary: s)
  case Nil
  show ?case by simp
next
  case (Cons d dbs)
  let ?n = "DBInstanceIdentifier d"
  obtain s1 x where b: "start_rds_db_body p ?n s = (s1, x)"
    by (cases "start_rds_db_body p ?n s")
  with start_rds_db_body_extends [of p ?n s]
  have e1: "prefix (calls s) (calls s1)" "prefix (log s) (log s1)" by simp_all
  show ?case
  proof (cases x)
    case None
    with b have "start_rds_db_loop p (d # dbs) s = start_rds_db_loop p dbs s1"
      by (simp add: Let_def)
    with Cons.IH [of s1] e1 show ?thesis
      by (auto intro: prefix_order.trans)
  next
    case (Some e)
    show ?thesis
    proof (cases "invalid_state e")
      case False
      with b Some have "start_rds_db_loop p (d # dbs) s = (s1, Some e)"
        by (simp add: Let_def invalid_state_def split: exn.splits)
      with e1 show ?thesis by simp
    next
      case True
      let ?w = "Error (''RDS instance '' @ ?n @ '' cannot be started as it is not in a valid state!'')"
      obtain s2 y where l: "logger p ?w s1 = (s2, y)" by (cases "logger p ?w s1")
      have e2: "calls s2 = calls s1" "prefix (log s1) (log s2)"
        using calls_logger [of p ?w s1] log_logger [of s1 p ?w] unfolding l by simp_all
      with e1 have e3: "prefix (calls s) (calls s2)" "prefix (log s) (log s2)"
        by (auto intro: prefix_order.trans)
      show ?thesis
      proof (cases y)
        case None
        with b Some True l have "start_rds_db_loop p (d # dbs) s = start_rds_db_loop p dbs s2"
          by (simp add: Let_def invalid_state_def split: exn.splits)
        with Cons.IH [of s2] e3 show ?thesis
          by (auto intro: prefix_order.trans)
      next
        case y: (Some e')
        with b Some True l have "start_rds_db_loop p (d # dbs) s = (s2, Some e')"
          by (simp add: Let_def invalid_state_def split: exn.splits)
        with e3 show ?thesis by simp
      qed
    qed
  qed
qed

lemma start_rds_db_loop_through:
  "start_db_continues p (calls s) pre \<Longrightarrow> list_all (\<lambda>x. plain (DBInstanceIdentifier x)) pre \<Longrightarrow>
   \<exists>s'. start_rds_db_loop p (pre @ rest) s = start_rds_db_loop p rest s'
        \<and> calls s' = calls s @ map start_db_call pre \<and> prefix (log s) (log s')"
proof (induction pre arbitrary: s)
  case Nil
  show ?case by (intro exI [of _ s]) simp
next
  case (Cons d pre)
  from Cons.prems have
    here: "case start_db_instance p (calls s) (DBInstanceIdentifier d) of None \<Rightarrow> True | Some e \<Rightarrow> invalid_state e"
    and rest: "start_db_continues p (calls s @ [start_db_call d]) pre"
    and pl: "plain (DBInstanceIdentifier d)"
    and pls: "list_all (\<lambda>x. plain (DBInstanceIdentifier x)) pre"
    by simp_all
  show ?case
  proof (cases "start_db_instance p (calls s) (DBInstanceIdentifier d)")
    case None
    let ?s = "emitted (Info (''Started RDS instance '' @ DBInstanceIdentifier d)) (record_call (start_db_call d) s)"
    from rest have "start_db_continues p (calls ?s) pre" by simp
    from Cons.IH [OF this pls] obtain s' where
      s': "start_rds_db_loop p (pre @ rest) ?s = start_rds_db_loop p rest s'
           \<and> calls s' = calls ?s @ map start_db_call pre \<and> prefix (log ?s) (log s')"
      ..
    then have "prefix (log s @ [last (log ?s)]) (log s')" by simp
    then have "prefix (log s) (log s')" by (rule append_prefixD)
    with s' show ?thesis
      unfolding append_Cons start_rds_db_loop_ok [OF None pl] by (intro exI [of _ s']) simp
  next
    case (Some e)
    with here have inv: "invalid_state e" by simp
    let ?s = "emitted (Error (''RDS instance '' @ DBInstanceIdentifier d @ '' cannot be started as it is not in a valid state!''))
                (record_call (start_db_call d) s)"
    from rest have "start_db_continues p (calls ?s) pre" by simp
    from Cons.IH [OF this pls] obtain s' where
      s': "start_rds_db_loop p (pre @ rest) ?s = start_rds_db_loop p rest s'
           \<and> calls s' = calls ?s @ map start_db_call pre \<and> prefix (log ?s) (log s')"
      ..
    then have "prefix (log s @ [last (log ?s)]) (log s')" by simp
    then have "prefix (log s) (log s')" by (rule append_prefixD)
    with s' show ?thesis
      unfolding append_Cons start_rds_db_loop_invalid [OF Some inv pl] by (intro exI [of _ s']) simp
  qed
qed

lemma start_rds_db_loop_attempts:
  "prefix (calls s @ [start_db_call d]) (calls (fst (start_rds_db_loop p (d # post) s)))"
proof -
  let ?n = "DBInstanceIdentifier d"
  obtain s1 x where b: "start_rds_db_body p ?n s = (s1, x)"
    by (cases "start_rds_db_body p ?n s")
  with start_rds_db_body_extends [of p ?n s]
  have c1: "calls s1 = calls s @ [start_db_call d]" by (simp add: start_db_call_def)
  show ?thesis
  proof (cases x)
    case None
    with b have "start_rds_db_loop p (d # post) s = start_rds_db_loop p post s1"
      by (simp add: Let_def)
    with start_rds_db_loop_extends [of s1 p post] c1 show ?thesis by simp
  next
    case (Some e)
    show ?thesis
    proof (cases "invalid_state e")
      case False
      with b Some have "start_rds_db_loop p (d # post) s = (s1, Some e)"
        by (simp add: Let_def invalid_state_def split: exn.splits)
      with c1 show ?thesis by simp
    next
      case True
      let ?w = "Error (''RDS instance '' @ ?n @ '' cannot be started as it is not in a valid state!'')"
      obtain s2 y where l: "logger p ?w s1 = (s2, y)" by (cases "logger p ?w s1")
      have "calls s2 = calls s1"
        using calls_logger [of p ?w s1] unfolding l by simp
      with c1 have c2: "calls s2 = calls s @ [start_db_call d]" by simp
      show ?thesis
      proof (cases y)
        case None
        with b Some True l have "start_rds_db_loop p (d # post) s = start_rds_db_loop p post s2"
          by (simp add: Let_def invalid_state_def split: exn.splits)
        with start_rds_db_loop_extends [of s2 p post] c2 show ?thesis by simp
      next
        case y: (Some e')
        with b Some True l have "start_rds_db_loop p (d # post) s = (s2, Some e')"
          by (simp add: Let_def invalid_state_def split: exn.splits)
        with c2 show ?thesis by simp
      qed
    qed
  qed
qed

lemma start_rds_db_loop_warns:
  assumes "start_db_instance p (calls s) (DBInstanceIdentifier d) = Some e" and "invalid_state e"
    and "plain (DBInstanceIdentifier d)"
  shows "Error (''RDS instance '' @ DBInstanceIdentifier d @ '' cannot be started as it is not in a valid state!'')
           \<in> set (log (fst (start_rds_db_loop p (d # post) s)))"
proof -
  let ?w = "Error (''RDS instance '' @ DBInstanceIdentifier d @ '' cannot be started as it is not in a valid state!'')"
  let ?s = "emitted ?w (record_call (start_db_call d) s)"
  have "prefix (log ?s) (log (fst (start_rds_db_loop p post ?s)))"
    using start_rds_db_loop_extends [of ?s p post] by (rule conjunct2)
  then have "set (log ?s) \<subseteq> set (log (fst (start_rds_db_loop p post ?s)))"
    by (rule set_mono_prefix)
  moreover have "?w \<in> set (log ?s)" by simp
  ultimately show ?thesis
    unfolding start_rds_db_loop_invalid [OF assms] by (rule subsetD)
qed

lemma start_rds_db_calls: "calls (fst (start_rds_db p s)) = calls (fst (start_rds_db_try p s))"
  by (simp add: start_rds_db_def split: prod.splits option.splits)

lemma start_rds_db_log: "prefix (log (fst (start_rds_db_try p s))) (log (fst (start_rds_db p s)))"
proof -
  obtain s1 x where t: "start_rds_db_try p s = (s1, x)" by (cases "start_rds_db_try p s")
  show ?thesis
  proof (cases x)
    case None
    with t show ?thesis by (simp add: start_rds_db_def)
  next
    case (Some e)
    with t log_logger [of s1 p "ErrorExn e"] show ?thesis by (simp add: start_rds_db_def)
  qed
qed

lemma start_rds_db_try_through:
  assumes "describe_db_instances p (calls s) = Inr (pre @ d # post)"
    and "start_db_continues p (calls s @ [DescribeDBInstances]) pre"
    and "list_all (\<lambda>x. plain (DBInstanceIdentifier x)) pre"
  shows "\<exists>s'. start_rds_db_try p s = start_rds_db_loop p (d # post) s'
           \<and> calls s' = calls s @ DescribeDBInstances # map start_db_call pre \<and> prefix (log s) (log s')"
proof -
  let ?s = "record_call DescribeDBInstances s"
  from assms(1) have body: "start_rds_db_try p s = start_rds_db_loop p (pre @ d # post) ?s"
    by (simp add: start_rds_db_try_def)
  from assms(2) have "start_db_continues p (calls ?s) pre" by simp
  from start_rds_db_loop_through [OF this assms(3), of "d # post"] obtain s' where
    "start_rds_db_loop p (pre @ d # post) ?s = start_rds_db_loop p (d # post) s'
        \<and> calls s' = calls ?s @ map start_db_call pre \<and> prefix (log ?s) (log s')"
    ..
  then show ?thesis
    unfolding body by (intro exI [of _ s']) simp
qed

lemma start_rds_db_past_invalid:
  assumes "describe_db_instances p (calls s) = Inr (pre @ d # post)"
    and "list_all (\<lambda>x. plain (DBInstanceIdentifier x)) (pre @ [d])"
    and "start_db_continues p (calls s @ [DescribeDBInstances]) pre"
  shows "prefix (calls s @ DescribeDBInstances # map start_db_call (pre @ [d])) (calls (fst (start_rds_db p s)))
       \<and> (\<forall>e. start_db_instance p (calls s @ DescribeDBInstances # map start_db_call pre) (DBInstanceIdentifier d) = Some e
                \<and> invalid_state e \<longrightarrow>
              Error (''RDS instance '' @ DBInstanceIdentifier d @ '' cannot be started as it is not in a valid state!'')
                \<in> set (log (fst (start_rds_db p s))))"
proof -
  from assms(2) have pls: "list_all (\<lambda>x. plain (DBInstanceIdentifier x)) pre"
    and pl: "plain (DBInstanceIdentifier d)"
    by simp_all
  from start_rds_db_try_through [OF assms(1,3) pls] obtain s' where
    s': "start_rds_db_try p s = start_rds_db_loop p (d # post) s'
         \<and> calls s' = calls s @ DescribeDBInstances # map start_db_call pre \<and> prefix (log s) (log s')"
    ..
  then have body: "start_rds_db_try p s = start_rds_db_loop p (d # post) s'"
    and c: "calls s' = calls s @ DescribeDBInstances # map start_db_call pre"
    by simp_all
  have "prefix (calls s' @ [start_db_call d]) (calls (fst (start_rds_db_loop p (d # post) s')))"
    by (rule start_rds_db_loop_attempts)
  then have attempted:
    "prefix (calls s @ DescribeDBInstances # map start_db_call (pre @ [d])) (calls (fst (start_rds_db p s)))"
    by (simp add: start_rds_db_calls body c)
  have warned:
    "Error (''RDS instance '' @ DBInstanceIdentifier d @ '' cannot be started as it is not in a valid state!'')
       \<in> set (log (fst (start_rds_db p s)))"
    if "start_db_instance p (calls s @ DescribeDBInstances # map start_db_call pre) (DBInstanceIdentifier d) = Some e"
      and "invalid_state e" for e
  proof -
    from that(1) have "start_db_instance p (calls s') (DBInstanceIdentifier d) = Some e"
      by (simp add: c)
    from start_rds_db_loop_warns [OF this that(2) pl, of post]
    have "Error (''RDS instance '' @ DBInstanceIdentifier d @ '' cannot be started as it is not in a valid state!'')
            \<in> set (log (fst (start_rds_db_try p s)))"
      by (simp only: body)
    moreover have "set (log (fst (start_rds_db_try p s))) \<subseteq> set (log (fst (start_rds_db p s)))"
      using start_rds_db_log by (rule set_mono_prefix)
    ultimately show ?thesis by (rule rev_subsetD)
  qed
  show ?thesis
    using attempted warned by simp
qed

lemma start_rds_db_aborts:
  assumes "describe_db_instances p (calls s) = Inr (pre @ d # post)"
    and "list_all (\<lambda>x. plain (DBInstanceIdentifier x)) pre"
    and "start_db_continues p (calls s @ [DescribeDBInstances]) pre"
    and "start_db_instance p (calls s @ DescribeDBInstances # map start_db_call pre) (DBInstanceIdentifier d) = Some e"
    and "\<not> invalid_state e"
    and "rejects p (ErrorExn e) = None"
  shows "calls (fst (start_rds_db p s)) = calls s @ DescribeDBInstances # map start_db_call (pre @ [d])
       \<and> (\<exists>ls. log (fst (start_rds_db p s)) = ls @ [ErrorExn e] \<and> prefix (log s) ls)
       \<and> snd (start_rds_db p s) = None"
proof -
  from start_rds_db_try_through [OF assms(1,3,2)] obtain s' where
    s': "start_rds_db_try p s = start_rds_db_loop p (d # post) s'
         \<and> calls s' = calls s @ DescribeDBInstances # map start_db_call pre \<and> prefix (log s) (log s')"
    ..
  then have c: "calls s' = calls s @ DescribeDBInstances # map start_db_call pre"
    and l: "prefix (log s) (log s')"
    by simp_all
  from assms(4) have "start_db_instance p (calls s') (DBInstanceIdentifier d) = Some e"
    by (simp add: c)
  from start_rds_db_loop_fatal [OF this assms(5), of post] s'
  have "start_rds_db_try p s = (record_call (start_db_call d) s', Some e)"
    by simp
  then have "start_rds_db p s = (emitted (ErrorExn e) (record_call (start_db_call d) s'), None)"
    by (simp add: start_rds_db_def logger_shown [OF assms(6)])
  with c l show ?thesis
    by simp
qed

lemma stop_rds_db_body_raises:
  "stop_db_instance p (calls s) n = Some e \<Longrightarrow>
   stop_rds_db_body p n s = (record_call (StopDBInstance n) s, Some e)"
  by (simp add: stop_rds_db_body_def)

lemma stop_rds_db_body_ok:
  "stop_db_instance p (calls s) n = None \<Longrightarrow> plain n \<Longrightarrow>
   stop_rds_db_body p n s =
   (emitted (Info (''Stopped RDS instance '' @ n)) (record_call (StopDBInstance n) s), None)"
  by (simp add: stop_rds_db_body_def logger_shown rejects_plain message_def plain_def)

lemma stop_rds_db_body_extends:
  "calls (fst (stop_rds_db_body p n s)) = calls s @ [StopDBInstance n]
   \<and> prefix (log s) (log (fst (stop_rds_db_body p n s)))"
  by (simp add: stop_rds_db_body_def log_logger [where s = "record_call c s" for c, simplified]
        split: option.splits)

lemma stop_rds_db_loop_ok:
  "stop_db_instance p (calls s) (DBInstanceIdentifier d) = None \<Longrightarrow> plain (DBInstanceIdentifier d) \<Longrightarrow>
   stop_rds_db_loop p (d # dbs) s =
   stop_rds_db_loop p dbs
     (emitted (Info (''Stopped RDS instance '' @ DBInstanceIdentifier d)) (record_call (stop_db_call d) s))"
  by (simp add: Let_def stop_db_call_def stop_rds_db_body_ok)

lemma stop_rds_db_loop_invalid:
  "stop_db_instance p (calls s) (DBInstanceIdentifier d) = Some e \<Longrightarrow> invalid_state e \<Longrightarrow>
   plain (DBInstanceIdentifier d) \<Longrightarrow>
   stop_rds_db_loop p (d # dbs) s =
   stop_rds_db_loop p dbs
     (emitted (Error (''RDS instance '' @ DBInstanceIdentifier d @ '' cannot be stopped as it is not in a valid state''))
        (record_call (stop_db_call d) s))"
  by (simp add: Let_def stop_db_call_def stop_rds_db_body_raises invalid_state_def logger_shown
        rejects_plain message_def plain_def split: exn.splits)

lemma stop_rds_db_loop_fatal:
  "stop_db_instance p (calls s) (DBInstanceIdentifier d) = Some e \<Longrightarrow> \<not> invalid_state e \<Longrightarrow>
   stop_rds_db_loop p (d # dbs) s = (record_call (stop_db_call d) s, Some e)"
  by (simp add: Let_def stop_db_call_def stop_rds_db_body_raises invalid_state_def split: exn.splits)

lemma stop_rds_db_loop_extends:
  "prefix (calls s) (calls (fst (stop_rds_db_loop p dbs s)))
   \<and> prefix (log s) (log (fst (stop_rds_db_loop p dbs s)))"
proof (induction dbs arbitrary: s)
  case Nil
  show ?case by simp
next
  case (Cons d dbs)
  let ?n = "DBInstanceIdentifier d"
  obtain s1 x where b: "stop_rds_db_body p ?n s = (s1, x)"
    by (cases "stop_rds_db_body p ?n s")
  with stop_rds_db_body_extends [of p ?n s]
  have e1: "prefix (calls s) (calls s1)" "prefix (log s) (log s1)" by simp_all
  show ?case
  proof (cases x)
    case None
    with b have "stop_rds_db_loop p (d # dbs) s = stop_rds_db_loop p dbs s1"
      by (simp add: Let_def)
    with Cons.IH [of s1] e1 show ?thesis
      by (auto intro: prefix_order.trans)
  next
    case (Some e)
    show ?thesis
    proof (cases "invalid_state e")
      case False
      with b Some have "stop_rds_db_loop p (d # dbs) s = (s1, Some e)"
        by (simp add: Let_def invalid_state_def split: exn.splits)
      with e1 show ?thesis by simp
    next
      case True
      let ?w = "Error (''RDS instance '' @ ?n @ '' cannot be stopped as it is not in a valid state'')"
      obtain s2 y where l: "logger p ?w s1 = (s2, y)" by (cases "logger p ?w s1")
      have e2: "calls s2 = calls s1" "prefix (log s1) (log s2)"
        using calls_logger [of p ?w s1] log_logger [of s1 p ?w] unfolding l by simp_all
      with e1 have e3: "prefix (calls s) (calls s2)" "prefix (log s) (log s2)"
        by (auto intro: prefix_order.trans)
      show ?thesis
      proof (cases y)
        case None
        with b Some True l have "stop_rds_db_loop p (d # dbs) s = stop_rds_db_loop p dbs s2"
          by (simp add: Let_def invalid_state_def split: exn.splits)
        with Cons.IH [of s2] e3 show ?thesis
          by (auto intro: prefix_order.trans)
      next
        case y: (Some e')
        with b Some True l have "stop_rds_db_loop p (d # dbs) s = (s2, Some e')"
          by (simp add: Let_def invalid_state_def split: exn.splits)
        with e3 show ?thesis by simp
      qed
    qed
  qed
qed

lemma stop_rds_db_loop_through:
  "stop_db_continues p (calls s) pre \<Longrightarrow> list_all (\<lambda>x. plain (DBInstanceIdentifier x)) pre \<Longrightarrow>
   \<exists>s'. stop_rds_db_loop p (pre @ rest) s = stop_rds_db_loop p rest s'
        \<and> calls s' = calls s @ map stop_db_call pre \<and> prefix (log s) (log s')"
proof (induction pre arbitrary: s)
  case Nil
  show ?case by (intro exI [of _ s]) simp
next
  case (Cons d pre)
  from Cons.prems have
    here: "case stop_db_instance p (calls s) (DBInstanceIdentifier d) of None \<Rightarrow> True | Some e \<Rightarrow> invalid_state e"
    and rest: "stop_db_continues p (calls s @ [stop_db_call d]) pre"
    and pl: "plain (DBInstanceIdentifier d)"
    and pls: "list_all (\<lambda>x. plain (DBInstanceIdentifier x)) pre"
    by simp_all
  show ?case
  proof (cases "stop_db_instance p (calls s) (DBInstanceIdentifier d)")
    case None
    let ?s = "emitted (Info (''Stopped RDS instance '' @ DBInstanceIdentifier d)) (record_call (stop_db_call d) s)"
    from rest have "stop_db_continues p (calls ?s) pre" by simp
    from Cons.IH [OF this pls] obtain s' where
      s': "stop_rds_db_loop p (pre @ rest) ?s = stop_rds_db_loop p rest s'
           \<and> calls s' = calls ?s @ map stop_db_call pre \<and> prefix (log ?s) (log s')"
      ..
    then have "prefix (log s @ [last (log ?s)]) (log s')" by simp
    then have "prefix (log s) (log s')" by (rule append_prefixD)
    with s' show ?thesis
      unfolding append_Cons stop_rds_db_loop_ok [OF None pl] by (intro exI [of _ s']) simp
  next
    case (Some e)
    with here have inv: "invalid_state e" by simp
    let ?s = "emitted (Error (''RDS instance '' @ DBInstanceIdentifier d @ '' cannot be stopped as it is not in a valid state''))
                (record_call (stop_db_call d) s)"
    from rest have "stop_db_continues p (calls ?s) pre" by simp
    from Cons.IH [OF this pls] obtain s' where
      s': "stop_rds_db_loop p (pre @ rest) ?s = stop_rds_db_loop p rest s'
           \<and> calls s' = calls ?s @ map stop_db_call pre \<and> prefix (log ?s) (log s')"
      ..
    then have "prefix (log s @ [last (log ?s)]) (log s')" by simp
    then have "prefix (log s) (log s')" by (rule append_prefixD)
    with s' show ?thesis
      unfolding append_Cons stop_rds_db_loop_invalid [OF Some inv pl] by (intro exI [of _ s']) simp
  qed
qed

lemma stop_rds_db_loop_attempts:
  "prefix (calls s @ [stop_db_call d]) (calls (fst (stop_rds_db_loop p (d # post) s)))"
proof -
  let ?n = "DBInstanceIdentifier d"
  obtain s1 x where b: "stop_rds_db_body p ?n s = (s1, x)"
    by (cases "stop_rds_db_body p ?n s")
  with stop_rds_db_body_extends [of p ?n s]
  have c1: "calls s1 = calls s @ [stop_db_call d]" by (simp add: stop_db_call_def)
  show ?thesis
  proof (cases x)
    case None
    with b have "stop_rds_db_loop p (d # post) s = stop_rds_db_loop p post s1"
      by (simp add: Let_def)
    with stop_rds_db_loop_extends [of s1 p post] c1 show ?thesis by simp
  next
    case (Some e)
    show ?thesis
    proof (cases "invalid_state e")
      case False
      with b Some have "stop_rds_db_loop p (d # post) s = (s1, Some e)"
        by (simp add: Let_def invalid_state_def split: exn.splits)
      with c1 show ?thesis by simp
    next
      case True
      let ?w = "Error (''RDS instance '' @ ?n @ '' cannot be stopped as it is not in a valid state'')"
      obtain s2 y where l: "logger p ?w s1 = (s2, y)" by (cases "logger p ?w s1")
      have "calls s2 = calls s1"
        using calls_logger [of p ?w s1] unfolding l by simp
      with c1 have c2: "calls s2 = calls s @ [stop_db_call d]" by simp
      show ?thesis
      proof (cases y)
        case None
        with b Some True l have "stop_rds_db_loop p (d # post) s = stop_rds_db_loop p post s2"
          by (simp add: Let_def invalid_state_def split: exn.splits)
        with stop_rds_db_loop_extends [of s2 p post] c2 show ?thesis by simp
      next
        case y: (Some e')
        with b Some True l have "stop_rds_db_loop p (d # post) s = (s2, Some e')"
          by (simp add: Let_def invalid_state_def split: exn.splits)
        with c2 show ?thesis by simp
      qed
    qed
  qed
qed

lemma stop_rds_db_loop_warns:
  assumes "stop_db_instance p (calls s) (DBInstanceIdentifier d) = Some e" and "invalid_state e"
    and "plain (DBInstanceIdentifier d)"
  shows "Error (''RDS instance '' @ DBInstanceIdentifier d @ '' cannot be stopped as it is not in a valid state'')
           \<in> set (log (fst (stop_rds_db_loop p (d # post) s)))"
proof -
  let ?w = "Error (''RDS instance '' @ DBInstanceIdentifier d @ '' cannot be stopped as it is not in a valid state'')"
  let ?s = "emitted ?w (record_call (stop_db_call d) s)"
  have "prefix (log ?s) (log (fst (stop_rds_db_loop p post ?s)))"
    using stop_rds_db_loop_extends [of ?s p post] by (rule conjunct2)
  then have "set (log ?s) \<subseteq> set (log (fst (stop_rds_db_loop p post ?s)))"
    by (rule set_mono_prefix)
  moreover have "?w \<in> set (log ?s)" by simp
  ultimately show ?thesis
    unfolding stop_rds_db_loop_invalid [OF assms] by (rule subsetD)
qed

lemma stop_rds_db_calls: "calls (fst (stop_rds_db p s)) = calls (fst (stop_rds_db_try p s))"
  by (simp add: stop_rds_db_def split: prod.splits option.splits)

lemma stop_rds_db_log: "prefix (log (fst (stop_rds_db_try p s))) (log (fst (stop_rds_db p s)))"
proof -
  obtain s1 x where t: "stop_rds_db_try p s = (s1, x)" by (cases "stop_rds_db_try p s")
  show ?thesis
  proof (cases x)
    case None
    with t show ?thesis by (simp add: stop_rds_db_def)
  next
    case (Some e)
    with t log_logger [of s1 p "ErrorExn e"] show ?thesis by (simp add: stop_rds_db_def)
  qed
qed

lemma stop_rds_db_try_through:
  assumes "describe_db_instances p (calls s) = Inr (pre @ d # post)"
    and "stop_db_continues p (calls s @ [DescribeDBInstances]) pre"
    and "list_all (\<lambda>x. plain (DBInstanceIdentifier x)) pre"
  shows "\<exists>s'. stop_rds_db_try p s = stop_rds_db_loop p (d # post) s'
           \<and> calls s' = calls s @ DescribeDBInstances # map stop_db_call pre \<and> prefix (log s) (log s')"
proof -
  let ?s = "record_call DescribeDBInstances s"
  from assms(1) have body: "stop_rds_db_try p s = stop_rds_db_loop p (pre @ d # post) ?s"
    by (simp add: stop_rds_db_try_def)
  from assms(2) have "stop_db_continues p (calls ?s) pre" by simp
  from stop_rds_db_loop_through [OF this assms(3), of "d # post"] obtain s' where
    "stop_rds_db_loop p (pre @ d # post) ?s = stop_rds_db_loop p (d # post) s'
        \<and> calls s' = calls ?s @ map stop_db_call pre \<and> prefix (log ?s) (log s')"
    ..
  then show ?thesis
    unfolding body by (intro exI [of _ s']) simp
qed

lemma stop_rds_db_past_invalid:
  assumes "describe_db_instances p (calls s) = Inr (pre @ d # post)"
    and "list_all (\<lambda>x. plain (DBInstanceIdentifier x)) (pre @ [d])"
    and "stop_db_continues p (calls s @ [DescribeDBInstances]) pre"
  shows "prefix (calls s @ DescribeDBInstances # map stop_db_call (pre @ [d])) (calls (fst (stop_rds_db p s)))
       \<and> (\<forall>e. stop_db_instance p (calls s @ DescribeDBInstances # map stop_db_call pre) (DBInstanceIdentifier d) = Some e
                \<and> invalid_state e \<longrightarrow>
              Error (''RDS instance '' @ DBInstanceIdentifier d @ '' cannot be stopped as it is not in a valid state'')
                \<in> set (log (fst (stop_rds_db p s))))"
proof -
  from assms(2) have pls: "list_all (\<lambda>x. plain (DBInstanceIdentifier x)) pre"
    and pl: "plain (DBInstanceIdentifier d)"
    by simp_all
  from stop_rds_db_try_through [OF assms(1,3) pls] obtain s' where
    s': "stop_rds_db_try p s = stop_rds_db_loop p (d # post) s'
         \<and> calls s' = calls s @ DescribeDBInstances # map stop_db_call pre \<and> prefix (log s) (log s')"
    ..
  then have body: "stop_rds_db_try p s = stop_rds_db_loop p (d # post) s'"
    and c: "calls s' = calls s @ DescribeDBInstances # map stop_db_call pre"
    by simp_all
  have "prefix (calls s' @ [stop_db_call d]) (calls (fst (stop_rds_db_loop p (d # post) s')))"
    by (rule stop_rds_db_loop_attempts)
  then have attempted:
    "prefix (calls s @ DescribeDBInstances # map stop_db_call (pre @ [d])) (calls (fst (stop_rds_db p s)))"
    by (simp add: stop_rds_db_calls body c)
  have warned:
    "Error (''RDS instance '' @ DBInstanceIdentifier d @ '' cannot be stopped as it is not in a valid state'')
       \<in> set (log (fst (stop_rds_db p s)))"
    if "stop_db_instance p (calls s @ DescribeDBInstances # map stop_db_call pre) (DBInstanceIdentifier d) = Some e"
      and "invalid_state e" for e
  proof -
    from that(1) have "stop_db_instance p (calls s') (DBInstanceIdentifier d) = Some e"
      by (simp add: c)
    from stop_rds_db_loop_warns [OF this that(2) pl, of post]
    have "Error (''RDS instance '' @ DBInstanceIdentifier d @ '' cannot be stopped as it is not in a valid state'')
            \<in> set (log (fst (stop_rds_db_try p s)))"
      by (simp only: body)
    moreover have "set (log (fst (stop_rds_db_try p s))) \<subseteq> set (log (fst (stop_rds_db p s)))"
      using stop_rds_db_log by (rule set_mono_prefix)
    ultimately show ?thesis by (rule rev_subsetD)
  qed
  show ?thesis
    using attempted warned by simp
qed

lemma stop_rds_db_aborts:
  assumes "describe_db_instances p (calls s) = Inr (pre @ d # post)"
    and "list_all (\<lambda>x. plain (DBInstanceIdentifier x)) pre"
    and "stop_db_continues p (calls s @ [DescribeDBInstances]) pre"
    and "stop_db_instance p (calls s @ DescribeDBInstances # map stop_db_call pre) (DBInstanceIdentifier d) = Some e"
    and "\<not> invalid_state e"
    and "rejects p (ErrorExn e) = None"
  shows "calls (fst (stop_rds_db p s)) = calls s @ DescribeDBInstances # map stop_db_call (pre @ [d])
       \<and> (\<exists>ls. log (fst (stop_rds_db p s)) = ls @ [ErrorExn e] \<and> prefix (log s) ls)
       \<and> snd (stop_rds_db p s) = None"
proof -
  from stop_rds_db_try_through [OF assms(1,3,2)] obtain s' where
    s': "stop_rds_db_try p s = stop_rds_db_loop p (d # post) s'
         \<and> calls s' = calls s @ DescribeDBInstances # map stop_db_call pre \<and> prefix (log s) (log s')"
    ..
  then have c: "calls s' = calls s @ DescribeDBInstances # map stop_db_call pre"
    and l: "prefix (log s) (log s')"
    by simp_all
  from assms(4) have "stop_db_instance p (calls s') (DBInstanceIdentifier d) = Some e"
    by (simp add: c)
  from stop_rds_db_loop_fatal [OF this assms(5), of post] s'
  have "stop_rds_db_try p s = (record_call (stop_db_call d) s', Some e)"
    by simp
  then have "stop_rds_db p s = (emitted (ErrorExn e) (record_call (stop_db_call d) s'), None)"
    by (simp add: stop_rds_db_def logger_shown [OF assms(6)])
  with c l show ?thesis
    by simp
qed

text \<open>
  Claim C4. An "invalid state" answer does not end the loop of
  \<open>start_rds_db\<close> or \<open>stop_rds_db\<close>: the warning for that instance is logged
  and the next instance is tried. So an enumerated database instance \<open>d\<close> is
  attempted whenever each attempt before it succeeded or was answered with
  "invalid state", and when its own attempt is answered with "invalid state"
  the warning for \<open>d\<close> is in the log. The identifiers are those of the
  provider, which admits letters, digits and hyphens only: they hold no
  bracket, so the lines that carry them are emitted as they are.
\<close>

theorem rds_invalid_state_continues:
  assumes "describe_db_instances p (calls s) = Inr (pre @ d # post)"
    and "list_all (\<lambda>x. plain (DBInstanceIdentifier x)) (pre @ [d])"
  shows "(start_db_continues p (calls s @ [DescribeDBInstances]) pre \<longrightarrow>
            prefix (calls s @ DescribeDBInstances # map start_db_call (pre @ [d])) (calls (fst (start_rds_db p s)))
            \<and> (\<forall>e. start_db_instance p (calls s @ DescribeDBInstances # map start_db_call pre) (DBInstanceIdentifier d) = Some e
                     \<and> invalid_state e \<longrightarrow>
                   Error (''RDS instance '' @ DBInstanceIdentifier d @ '' cannot be started as it is not in a valid state!'')
                     \<in> set (log (fst (start_rds_db p s)))))
       \<and> (stop_db_continues p (calls s @ [DescribeDBInstances]) pre \<longrightarrow>
            prefix (calls s @ DescribeDBInstances # map stop_db_call (pre @ [d])) (calls (fst (stop_rds_db p s)))
            \<and> (\<forall>e. stop_db_instance p (calls s @ DescribeDBInstances # map stop_db_call pre) (DBInstanceIdentifier d) = Some e
                     \<and> invalid_state e \<longrightarrow>
                   Error (''RDS instance '' @ DBInstanceIdentifier d @ '' cannot be stopped as it is not in a valid state'')
                     \<in> set (log (fst (stop_rds_db p s)))))"
proof (intro conjI impI)
  assume "start_db_continues p (calls s @ [DescribeDBInstances]) pre"
  from start_rds_db_past_invalid [OF assms this]
  show "prefix (calls s @ DescribeDBInstances # map start_db_call (pre @ [d])) (calls (fst (start_rds_db p s)))"
    and "\<forall>e. start_db_instance p (calls s @ DescribeDBInstances # map start_db_call pre) (DBInstanceIdentifier d) = Some e
                     \<and> invalid_state e \<longrightarrow>
                   Error (''RDS instance '' @ DBInstanceIdentifier d @ '' cannot be started as it is not in a valid state!'')
                     \<in> set (log (fst (start_rds_db p s)))"
    by (rule conjunct1, rule conjunct2)
next
  assume "stop_db_continues p (calls s @ [DescribeDBInstances]) pre"
  from stop_rds_db_past_invalid [OF assms this]
  show "prefix (calls s @ DescribeDBInstances # map stop_db_call (pre @ [d])) (calls (fst (stop_rds_db p s)))"
    and "\<forall>e. stop_db_instance p (calls s @ DescribeDBInstances # map stop_db_call pre) (DBInstanceIdentifier d) = Some e
                     \<and> invalid_state e \<longrightarrow>
                   Error (''RDS instance '' @ DBInstanceIdentifier d @ '' cannot be stopped as it is not in a valid state'')
                     \<in> set (log (fst (stop_rds_db p s)))"
    by (rule conjunct1, rule conjunct2)
qed

theorem rds_invalid_state_continues_witness:
  "describe_db_instances two_db_provider (calls new_world) = Inr ([db ''db-1''] @ db ''db-2'' # [])
   \<and> list_all (\<lambda>x. plain (DBInstanceIdentifier x)) ([db ''db-1''] @ [db ''db-2''])
   \<and> start_db_continues two_db_provider (calls new_world @ [DescribeDBInstances]) [db ''db-1'']
   \<and> stop_db_continues two_db_provider (calls new_world @ [DescribeDBInstances]) [db ''db-1'']
   \<and> start_db_instance two_db_provider [DescribeDBInstances] ''db-1'' = None
   \<and> start_db_instance two_db_provider [DescribeDBInstances, StartDBInstance ''db-1''] ''db-2'' = Some invalid_db_state
   \<and> prefix [DescribeDBInstances, StartDBInstance ''db-1'', StartDBInstance ''db-2'']
        (calls (fst (start_rds_db two_db_provider new_world)))
   \<and> prefix [DescribeDBInstances, StopDBInstance ''db-1'', StopDBInstance ''db-2'']
        (calls (fst (stop_rds_db two_db_provider new_world)))
   \<and> log (fst (start_rds_db two_db_provider new_world))
       = [Info ''Started RDS instance db-1'',
          Error ''RDS instance db-2 cannot be started as it is not in a valid state!'']
   \<and> log (fst (stop_rds_db two_db_provider new_world))
       = [Info ''Stopped RDS instance db-1'',
          Error ''RDS instance db-2 cannot be stopped as it is not in a valid state'']"
proof -
  have d: "describe_db_instances two_db_provider (calls new_world) = Inr ([db ''db-1''] @ db ''db-2'' # [])"
    by (simp add: two_db_provider_def empty_provider_def)
  have pl: "list_all (\<lambda>x. plain (DBInstanceIdentifier x)) ([db ''db-1''] @ [db ''db-2''])"
    by code_simp
  have c1: "start_db_continues two_db_provider (calls new_world @ [DescribeDBInstances]) [db ''db-1'']"
    and c2: "stop_db_continues two_db_provider (calls new_world @ [DescribeDBInstances]) [db ''db-1'']"
    by code_simp+
  have o: "start_db_instance two_db_provider [DescribeDBInstances] ''db-1'' = None"
    "start_db_instance two_db_provider [DescribeDBInstances, StartDBInstance ''db-1''] ''db-2'' = Some invalid_db_state"
    by code_simp+
  have e: "calls new_world @ DescribeDBInstances # map start_db_call ([db ''db-1''] @ [db ''db-2''])
           = [DescribeDBInstances, StartDBInstance ''db-1'', StartDBInstance ''db-2'']"
    "calls new_world @ DescribeDBInstances # map stop_db_call ([db ''db-1''] @ [db ''db-2''])
           = [DescribeDBInstances, StopDBInstance ''db-1'', StopDBInstance ''db-2'']"
    by code_simp+
  have l: "log (fst (start_rds_db two_db_provider new_world))
       = [Info ''Started RDS instance db-1'',
          Error ''RDS instance db-2 cannot be started as it is not in a valid state!'']"
    "log (fst (stop_rds_db two_db_provider new_world))
       = [Info ''Stopped RDS instance db-1'',
          Error ''RDS instance db-2 cannot be stopped as it is not in a valid state'']"
    by code_simp+
  from rds_invalid_state_continues [OF d pl] c1 c2
  have "prefix (calls new_world @ DescribeDBInstances # map start_db_call ([db ''db-1''] @ [db ''db-2'']))
          (calls (fst (start_rds_db two_db_provider new_world)))"
    and "prefix (calls new_world @ DescribeDBInstances # map stop_db_call ([db ''db-1''] @ [db ''db-2'']))
          (calls (fst (stop_rds_db two_db_provider new_world)))"
    by simp_all
  then have "prefix [DescribeDBInstances, StartDBInstance ''db-1'', StartDBInstance ''db-2'']
          (calls (fst (start_rds_db two_db_provider new_world)))"
    and "prefix [DescribeDBInstances, StopDBInstance ''db-1'', StopDBInstance ''db-2'']
          (calls (fst (stop_rds_db two_db_provider new_world)))"
    by (simp_all only: e)
  with d pl c1 c2 o l show ?thesis
    by (intro conjI)
qed

text \<open>
  Claim C5 has an error other than "invalid state" end the operation, be
  logged, and not reach the caller. The handlers of \<open>start_rds_db\<close> and
  \<open>stop_rds_db\<close> are written to do so: the inner one raises the error again,
  the outer one passes it to \<^verbatim>\<open>logger.error\<close> and returns
  (\<open>start_rds_db_aborts\<close>, \<open>stop_rds_db_aborts\<close>). But the handler
  of the logger parses the text of the error as markup. When the provider
  refuses the first database with a text that holds \<^verbatim>\<open>[/prod]\<close>, the logging
  call in the \<^verbatim>\<open>except\<close> block raises: nothing is logged, and the error of the
  renderer leaves the method. The second database is never tried, as the
  claim says.
\<close>

theorem rds_error_log_call_raises:
  "describe_db_instances prod_error_provider (calls new_world) = Inr [db ''db-1'', db ''db-2'']
   \<and> start_db_instance prod_error_provider [DescribeDBInstances] ''db-1'' = Some denied_prod
   \<and> stop_db_instance prod_error_provider [DescribeDBInstances] ''db-1'' = Some denied_prod
   \<and> \<not> invalid_state denied_prod
   \<and> rejects prod_error_provider (ErrorExn denied_prod) = Some (prod_tag_error 56)
   \<and> start_rds_db prod_error_provider new_world
       = (record_call (StartDBInstance ''db-1'') (record_call DescribeDBInstances new_world), Some (prod_tag_error 56))
   \<and> log (fst (start_rds_db prod_error_provider new_world)) = []
   \<and> calls (fst (start_rds_db prod_error_provider new_world)) = [DescribeDBInstances, StartDBInstance ''db-1'']
   \<and> stop_rds_db prod_error_provider new_world
       = (record_call (StopDBInstance ''db-1'') (record_call DescribeDBInstances new_world), Some (prod_tag_error 56))
   \<and> log (fst (stop_rds_db prod_error_provider new_world)) = []
   \<and> calls (fst (stop_rds_db prod_error_provider new_world)) = [DescribeDBInstances, StopDBInstance ''db-1'']"
  by code_simp

section \<open>Updating scaling groups\<close>

lemma asg_loop_ok:
  "renders_all p \<Longrightarrow> update_auto_scaling_group p (calls s) (AutoScalingGroupName g) mn mx d = None \<Longrightarrow>
   ec2_asg_desired_capacity_loop p d mn mx (g # gs) s =
   ec2_asg_desired_capacity_loop p d mn mx gs
     (emitted (Info (''Capacity updated for Auto Scaling Group '' @ AutoScalingGroupName g @ '': from ''
                      @ str_int (DesiredCapacity g) @ '' to '' @ str_int d))
        (record_call (update_call d mn mx g) s))"
  by (simp add: Let_def update_call_def logger_shown rejects_rendered)

lemma asg_loop_raises:
  "renders_all p \<Longrightarrow> update_auto_scaling_group p (calls s) (AutoScalingGroupName g) mn mx d = Some e \<Longrightarrow>
   ec2_asg_desired_capacity_loop p d mn mx (g # gs) s =
   (emitted (ErrorFmt (''Error occurred while updating Auto Scaling Group '' @ AutoScalingGroupName g @ '': '') e)
      (record_call (update_call d mn mx g) s), Some e)"
  by (simp add: Let_def update_call_def logger_shown rejects_rendered)

lemma asg_loop_through:
  "renders_all p \<Longrightarrow> updates_succeed p d mn mx (calls s) pre \<Longrightarrow>
   \<exists>s'. ec2_asg_desired_capacity_loop p d mn mx (pre @ rest) s = ec2_asg_desired_capacity_loop p d mn mx rest s'
        \<and> calls s' = calls s @ map (update_call d mn mx) pre \<and> prefix (log s) (log s')"
proof (induction pre arbitrary: s)
  case Nil
  show ?case by (intro exI [of _ s]) simp
next
  case (Cons g pre)
  from Cons.prems have ok: "update_auto_scaling_group p (calls s) (AutoScalingGroupName g) mn mx d = None"
    and rest: "updates_succeed p d mn mx (calls s @ [update_call d mn mx g]) pre"
    by simp_all
  let ?s = "emitted (Info (''Capacity updated for Auto Scaling Group '' @ AutoScalingGroupName g @ '': from ''
                    @ str_int (DesiredCapacity g) @ '' to '' @ str_int d))
              (record_call (update_call d mn mx g) s)"
  from rest have "updates_succeed p d mn mx (calls ?s) pre" by simp
  from Cons.IH [OF Cons.prems(1) this] obtain s' where
    s': "ec2_asg_desired_capacity_loop p d mn mx (pre @ rest) ?s = ec2_asg_desired_capacity_loop p d mn mx rest s'
         \<and> calls s' = calls ?s @ map (update_call d mn mx) pre \<and> prefix (log ?s) (log s')"
    ..
  then have "prefix (log s @ [last (log ?s)]) (log s')" by simp
  then have "prefix (log s) (log s')" by (rule append_prefixD)
  with s' show ?case
    unfolding append_Cons asg_loop_ok [OF Cons.prems(1) ok] by (intro exI [of _ s']) simp
qed


lemma asg_describe_returns:
  "describe_auto_scaling_groups p (calls s) = Inr gs \<Longrightarrow>
   ec2_asg_desired_capacity p d mn mx s =
   ec2_asg_desired_capacity_loop p d mn mx gs (record_call DescribeAutoScalingGroups s)"
  by (simp add: ec2_asg_desired_capacity_def)

lemma asg_update_raises:
  assumes "renders_all p"
    and "describe_auto_scaling_groups p (calls s) = Inr (pre @ g # post)"
    and "updates_succeed p d mn mx (calls s @ [DescribeAutoScalingGroups]) pre"
    and "update_auto_scaling_group p (calls s @ DescribeAutoScalingGroups # map (update_call d mn mx) pre)
           (AutoScalingGroupName g) mn mx d = Some e"
  shows "snd (ec2_asg_desired_capacity p d mn mx s) = Some e
       \<and> calls (fst (ec2_asg_desired_capacity p d mn mx s))
           = calls s @ DescribeAutoScalingGroups # map (update_call d mn mx) (pre @ [g])
       \<and> (\<exists>ls. log (fst (ec2_asg_desired_capacity p d mn mx s))
                 = ls @ [ErrorFmt (''Error occurred while updating Auto Scaling Group '' @ AutoScalingGroupName g @ '': '') e]
               \<and> prefix (log s) ls)"
proof -
  let ?s = "record_call DescribeAutoScalingGroups s"
  from assms(3) have "updates_succeed p d mn mx (calls ?s) pre" by simp
  from asg_loop_through [OF assms(1) this, of "g # post"] obtain s' where
    s': "ec2_asg_desired_capacity_loop p d mn mx (pre @ g # post) ?s = ec2_asg_desired_capacity_loop p d mn mx (g # post) s'
         \<and> calls s' = calls ?s @ map (update_call d mn mx) pre \<and> prefix (log ?s) (log s')"
    ..
  then have c: "calls s' = calls s @ DescribeAutoScalingGroups # map (update_call d mn mx) pre"
    and l: "prefix (log s) (log s')"
    by simp_all
  from assms(4) have "update_auto_scaling_group p (calls s') (AutoScalingGroupName g) mn mx d = Some e"
    by (simp add: c)
  from asg_loop_raises [OF assms(1) this, of post] s' asg_describe_returns [OF assms(2), of d mn mx]
  have "ec2_asg_desired_capacity p d mn mx s =
        (emitted (ErrorFmt (''Error occurred while updating Auto Scaling Group '' @ AutoScalingGroupName g @ '': '') e)
           (record_call (update_call d mn mx g) s'), Some e)"
    by simp
  with c l show ?thesis by simp
qed

text \<open>
  Claim C6 has every failure of the capacity update logged and raised again
  to the caller. The handlers of \<open>ec2_asg_desired_capacity\<close> are written to do
  so (\<open>asg_describe_raises\<close>, \<open>asg_update_raises\<close>), but they build the line
  they log from the name of the group and the text of the error, and the
  handler of the logger parses that line as markup. With a group named
  \<^verbatim>\<open>web[/prod]\<close> whose update is refused, the logging call in the \<^verbatim>\<open>except\<close>
  block raises: nothing is logged, and what reaches the caller is the error
  of the renderer, not the error of the provider. The update of the second
  group is never tried, as the claim says.
\<close>

theorem capacity_update_log_call_raises:
  "describe_auto_scaling_groups prod_group_provider (calls new_world) = Inr [group ''web[/prod]'', group ''g2'']
   \<and> update_auto_scaling_group prod_group_provider [DescribeAutoScalingGroups] ''web[/prod]'' 0 0 0 = Some access_denied
   \<and> rejects prod_group_provider
        (ErrorFmt ''Error occurred while updating Auto Scaling Group web[/prod]: '' access_denied)
       = Some (prod_tag_error 61)
   \<and> snd (ec2_asg_desired_capacity prod_group_provider 0 0 0 new_world) = Some (prod_tag_error 61)
   \<and> snd (ec2_asg_desired_capacity prod_group_provider 0 0 0 new_world) \<noteq> Some access_denied
   \<and> log (fst (ec2_asg_desired_capacity prod_group_provider 0 0 0 new_world)) = []
   \<and> calls (fst (ec2_asg_desired_capacity prod_group_provider 0 0 0 new_world))
       = [DescribeAutoScalingGroups, UpdateAutoScalingGroup ''web[/prod]'' 0 0 0]"
  by code_simp

section \<open>Starting and stopping everything\<close>







text \<open>
  Claim C3 has \<open>stop_all_resources\<close> stop the compute instances, then the
  databases, then update the scaling groups to (0, 0, 0). The three
  statements stand in this order, and the first two catch every exception of
  their \<^verbatim>\<open>try\<close> block (\<open>stop_all_resources_sequence\<close>). But the handler of the
  logger parses each line as markup, and the lines carry text of the
  provider. With one running instance whose first tag value is \<^verbatim>\<open>[/prod]\<close>,
  \<^verbatim>\<open>logger.info\<close> raises after the instance was stopped, \<^verbatim>\<open>logger.error(e)\<close> in
  the \<^verbatim>\<open>except\<close> block raises on the text of that exception, and the second
  exception leaves \<open>stop_ec2_instances\<close> and \<open>stop_all_resources\<close>: the
  databases are not stopped and the scaling groups are not updated, although
  every call of the provider succeeds. \<open>busy_provider\<close> differs in the
  instances only, and there the three steps run.
\<close>

theorem stop_all_resources_cut_short:
  "describe_instances prod_instance_provider (calls new_world) = Inr [\<lparr>Instances = [prod9]\<rparr>]
   \<and> Tags prod9 = Some [name_tag ''[/prod]'']
   \<and> stop_instances prod_instance_provider [DescribeInstances] [''i-9''] = None
   \<and> rejects prod_instance_provider (Info ''Stopped EC2 instance i-9 ([/prod])'') = Some (prod_tag_error 35)
   \<and> rejects prod_instance_provider (ErrorExn (prod_tag_error 35)) = Some (prod_tag_error 22)
   \<and> stop_ec2_instances prod_instance_provider new_world
       = (record_call (StopInstances [''i-9'']) (record_call DescribeInstances new_world), Some (prod_tag_error 22))
   \<and> snd (stop_all_resources prod_instance_provider new_world) = Some (prod_tag_error 22)
   \<and> calls (fst (stop_all_resources prod_instance_provider new_world)) = [DescribeInstances, StopInstances [''i-9'']]
   \<and> log (fst (stop_all_resources prod_instance_provider new_world)) = []
   \<and> describe_db_instances prod_instance_provider [DescribeInstances, StopInstances [''i-9'']]
       = Inr [db ''db-1'', db ''db-2'']
   \<and> calls (fst (stop_all_resources busy_provider new_world))
       = [DescribeInstances, StopInstances [''i-1''], StopInstances [''i-3''],
          DescribeDBInstances, StopDBInstance ''db-1'', StopDBInstance ''db-2'',
          DescribeAutoScalingGroups, UpdateAutoScalingGroup ''g1'' 0 0 0, UpdateAutoScalingGroup ''g2'' 0 0 0]"
  by code_simp

text \<open>
  Claim C2 says that \<open>start_all_resources\<close> updates the scaling groups to
  desired 0, minimum 0 and maximum 2. The call in the source is
  \<^verbatim>\<open>ec2_asg_desired_capacity(0,2,1)\<close>, whose parameters are desired, minimum
  and maximum in this order. With one scaling group \<^verbatim>\<open>g1\<close> the update that
  reaches the provider has \<^verbatim>\<open>MinSize=2\<close>, \<^verbatim>\<open>MaxSize=1\<close> and \<^verbatim>\<open>DesiredCapacity=0\<close>:
  a minimum above the maximum, and not the update of the claim.
\<close>

theorem start_all_capacity_arguments:
  "describe_auto_scaling_groups one_group_provider
     [DescribeInstances, DescribeDBInstances] = Inr [group ''g1'']
   \<and> calls (fst (start_all_resources one_group_provider new_world))
     = [DescribeInstances, DescribeDBInstances, DescribeAutoScalingGroups, UpdateAutoScalingGroup ''g1'' 2 1 0]
   \<and> update_call 0 0 2 (group ''g1'') = UpdateAutoScalingGroup ''g1'' 0 2 0
   \<and> update_call 0 0 2 (group ''g1'') \<notin> set (calls (fst (start_all_resources one_group_provider new_world)))"
  by code_simp

text \<open>
  Claim C9, as the code has it. When the enumeration returns nothing, the
  four start and stop methods raise an exception \<^verbatim>\<open>No ... found\<close> inside their
  \<^verbatim>\<open>try\<close> block, log it with \<^verbatim>\<open>logger.error\<close> and return. The capacity update
  has no such check: with no scaling group it records the enumeration, logs
  nothing and returns.
\<close>

theorem no_resources_found:
  "(describe_instances p (calls s) = Inr [] \<longrightarrow>
      start_ec2_instances p s
        = (emitted (ErrorExn (Exception ''No EC2 Instance found!'')) (record_call DescribeInstances s), None)
      \<and> stop_ec2_instances p s
        = (emitted (ErrorExn (Exception ''No EC2 instances found!'')) (record_call DescribeInstances s), None))
   \<and> (describe_db_instances p (calls s) = Inr [] \<longrightarrow>
      start_rds_db p s
        = (emitted (ErrorExn (Exception ''No RDS instances found.'')) (record_call DescribeDBInstances s), None)
      \<and> stop_rds_db p s
        = (emitted (ErrorExn (Exception ''No RDS instances found.'')) (record_call DescribeDBInstances s), None))
   \<and> (describe_auto_scaling_groups p (calls s) = Inr [] \<longrightarrow>
      ec2_asg_desired_capacity p d mn mx s = (record_call DescribeAutoScalingGroups s, None))"
  by (simp add: start_ec2_instances_def start_ec2_instances_try_def stop_ec2_instances_def stop_ec2_instances_try_def
        start_rds_db_def start_rds_db_try_def stop_rds_db_def stop_rds_db_try_def ec2_asg_desired_capacity_def
        logger_shown rejects_plain message_def str_exn_def plain_def)

theorem no_resources_found_witness:
  "describe_instances empty_provider (calls new_world) = Inr []
   \<and> describe_db_instances empty_provider (calls new_world) = Inr []
   \<and> describe_auto_scaling_groups empty_provider (calls new_world) = Inr []
   \<and> log (fst (start_ec2_instances empty_provider new_world)) = [ErrorExn (Exception ''No EC2 Instance found!'')]
   \<and> log (fst (stop_ec2_instances empty_provider new_world)) = [ErrorExn (Exception ''No EC2 instances found!'')]
   \<and> log (fst (start_rds_db empty_provider new_world)) = [ErrorExn (Exception ''No RDS instances found.'')]
   \<and> log (fst (stop_rds_db empty_provider new_world)) = [ErrorExn (Exception ''No RDS instances found.'')]
   \<and> log (fst (ec2_asg_desired_capacity empty_provider 1 0 1 new_world)) = []"
proof -
  have d: "describe_instances empty_provider (calls new_world) = Inr []"
    "describe_db_instances empty_provider (calls new_world) = Inr []"
    "describe_auto_scaling_groups empty_provider (calls new_world) = Inr []"
    by (simp_all add: empty_provider_def)
  note inst = no_resources_found [of empty_provider new_world 1 0 1]
  from inst d show ?thesis
    by (simp add: new_world_def)
qed

text \<open>
  The claim as the specification words it includes the capacity update among
  the operations that log an error when there is nothing to work on. It does
  not: with no scaling group its log stays empty.
\<close>

theorem capacity_update_without_groups_is_silent:
  "describe_auto_scaling_groups empty_provider (calls new_world) = Inr []
   \<and> ec2_asg_desired_capacity empty_provider 0 0 0 new_world
     = (\<lparr>calls = [DescribeAutoScalingGroups], log = [], screen = []\<rparr>, None)"
  by code_simp

section \<open>Reading the status\<close>

lemma check_ec2_status_calls: "calls (fst (check_ec2_status p s)) = calls s @ [DescribeInstances]"
  by (simp add: check_ec2_status_def Let_def split: sum.splits prod.splits)

lemma check_rds_status_calls: "calls (fst (check_rds_status p s)) = calls s @ [DescribeDBInstances]"
  by (simp add: check_rds_status_def Let_def split: sum.splits)

lemma check_asg_status_calls: "calls (fst (check_asg_status p s)) = calls s @ [DescribeAutoScalingGroups]"
  by (simp add: check_asg_status_def Let_def split: sum.splits)

lemma calls_rich_print [simp]: "calls (fst (rich_print p tbl s)) = calls s"
  by (simp add: rich_print_def split: option.splits)

lemma log_rich_print [simp]: "log (fst (rich_print p tbl s)) = log s"
  by (simp add: rich_print_def split: option.splits)

lemma check_status_calls:
  "\<exists>cs. calls (fst (check_status p s)) = calls s @ cs
        \<and> prefix cs [DescribeInstances, DescribeDBInstances, DescribeAutoScalingGroups]"
proof -
  obtain s1 r1 where a: "check_ec2_status p s = (s1, r1)" by (cases "check_ec2_status p s")
  with check_ec2_status_calls [of p s] have c1: "calls s1 = calls s @ [DescribeInstances]" by simp
  show ?thesis
  proof (cases r1)
    case (Inl e)
    with a c1 show ?thesis
      by (intro exI [of _ "[DescribeInstances]"]) (simp add: check_status_def)
  next
    case t1: (Inr ec2_table)
    obtain s1' x1 where p1: "rich_print p ec2_table s1 = (s1', x1)" by (cases "rich_print p ec2_table s1")
    have c1': "calls s1' = calls s @ [DescribeInstances]"
      using calls_rich_print [of p ec2_table s1] c1 unfolding p1 by simp
    show ?thesis
    proof (cases x1)
      case (Some e)
      with a t1 p1 c1' show ?thesis
        by (intro exI [of _ "[DescribeInstances]"]) (simp add: check_status_def)
    next
      case n1: None
      obtain s2 r2 where b: "check_rds_status p s1' = (s2, r2)" by (cases "check_rds_status p s1'")
      with check_rds_status_calls [of p s1'] c1'
      have c2: "calls s2 = calls s @ [DescribeInstances, DescribeDBInstances]" by simp
      show ?thesis
      proof (cases r2)
        case (Inl e)
        with a t1 p1 n1 b c2 show ?thesis
          by (intro exI [of _ "[DescribeInstances, DescribeDBInstances]"]) (simp add: check_status_def)
      next
        case t2: (Inr rds_table)
        obtain s2' x2 where p2: "rich_print p rds_table s2 = (s2', x2)" by (cases "rich_print p rds_table s2")
        have c2': "calls s2' = calls s @ [DescribeInstances, DescribeDBInstances]"
          using calls_rich_print [of p rds_table s2] c2 unfolding p2 by simp
        show ?thesis
        proof (cases x2)
          case (Some e)
          with a t1 p1 n1 b t2 p2 c2' show ?thesis
            by (intro exI [of _ "[DescribeInstances, DescribeDBInstances]"]) (simp add: check_status_def)
        next
          case n2: None
          obtain s3 r3 where c: "check_asg_status p s2' = (s3, r3)" by (cases "check_asg_status p s2'")
          with check_asg_status_calls [of p s2'] c2'
          have c3: "calls s3 = calls s @ [DescribeInstances, DescribeDBInstances, DescribeAutoScalingGroups]" by simp
          with a t1 p1 n1 b t2 p2 n2 c show ?thesis
            by (intro exI [of _ "[DescribeInstances, DescribeDBInstances, DescribeAutoScalingGroups]"])
               (simp add: check_status_def split: sum.splits)
        qed
      qed
    qed
  qed
qed

text \<open>
  Claim C8. Each of \<open>check_ec2_status\<close>, \<open>check_rds_status\<close> and
  \<open>check_asg_status\<close> makes exactly one call, the enumeration of its
  resources. \<open>check_status\<close> makes these three enumerations in this order, as
  far as it gets before one of its statements raises. None of the four adds a
  start, stop or update call to the calls made before it.
\<close>

theorem status_queries_read_only:
  "calls (fst (check_ec2_status p s)) = calls s @ [DescribeInstances]
   \<and> calls (fst (check_rds_status p s)) = calls s @ [DescribeDBInstances]
   \<and> calls (fst (check_asg_status p s)) = calls s @ [DescribeAutoScalingGroups]
   \<and> (\<exists>cs. calls (fst (check_status p s)) = calls s @ cs
          \<and> prefix cs [DescribeInstances, DescribeDBInstances, DescribeAutoScalingGroups])
   \<and> filter mutating (calls (fst (check_ec2_status p s))) = filter mutating (calls s)
   \<and> filter mutating (calls (fst (check_rds_status p s))) = filter mutating (calls s)
   \<and> filter mutating (calls (fst (check_asg_status p s))) = filter mutating (calls s)
   \<and> filter mutating (calls (fst (check_status p s))) = filter mutating (calls s)"
proof -
  from check_status_calls [of p s] obtain cs where
    cs: "calls (fst (check_status p s)) = calls s @ cs
         \<and> prefix cs [DescribeInstances, DescribeDBInstances, DescribeAutoScalingGroups]"
    ..
  then have "set cs \<subseteq> set [DescribeInstances, DescribeDBInstances, DescribeAutoScalingGroups]"
    by (intro set_mono_prefix) simp
  then have "\<forall>c\<in>set cs. \<not> mutating c" by auto
  then have "filter mutating cs = []" by (simp add: filter_empty_conv)
  with cs have "filter mutating (calls (fst (check_status p s))) = filter mutating (calls s)" by simp
  with check_status_calls [of p s] show ?thesis
    by (simp add: check_ec2_status_calls check_rds_status_calls check_asg_status_calls)
qed

theorem status_queries_read_only_witness:
  "calls (fst (check_status busy_provider new_world))
     = [DescribeInstances, DescribeDBInstances, DescribeAutoScalingGroups]
   \<and> filter mutating (calls (fst (check_status busy_provider new_world))) = []"
proof -
  have "calls (fst (check_status busy_provider new_world))
     = [DescribeInstances, DescribeDBInstances, DescribeAutoScalingGroups]"
    by code_simp
  with status_queries_read_only [of busy_provider new_world] show ?thesis
    by (simp add: new_world_def)
qed

lemma check_ec2_status_tags_nameless:
  "\<not> list_ex (\<lambda>t. Key t = Some ''Name'') ts \<Longrightarrow> check_ec2_status_tags ts nm = nm"
  by (induction ts arbitrary: nm) simp_all

lemma check_ec2_status_inner_untagged:
  "Tags i = None \<Longrightarrow> check_ec2_status_inner (i # insts) (nm, tbl) = Inl (KeyError ''Tags'')"
  by simp

lemma check_ec2_status_inner_unbound:
  "Tags i = Some ts \<Longrightarrow> check_ec2_status_tags ts nm = None \<Longrightarrow>
   check_ec2_status_inner (i # insts) (nm, tbl) = Inl (UnboundLocalError ''instance_name'')"
  by (simp add: Let_def)

lemma check_ec2_status_inner_row:
  "Tags i = Some ts \<Longrightarrow> check_ec2_status_tags ts nm = Some v \<Longrightarrow>
   check_ec2_status_inner (i # insts) (nm, tbl) =
   check_ec2_status_inner insts
     (Some v, add_row [Some (InstanceId i), Some (InstanceType i), v, Some (State_Name i)] tbl)"
  by (simp add: Let_def)

lemma check_ec2_status_inner_append:
  "check_ec2_status_inner (xs @ ys) st =
   (case check_ec2_status_inner xs st of Inl e \<Rightarrow> Inl e | Inr st' \<Rightarrow> check_ec2_status_inner ys st')"
proof (induction xs arbitrary: st)
  case Nil
  show ?case by simp
next
  case (Cons i xs)
  obtain nm tbl where st: "st = (nm, tbl)" by (cases st)
  show ?case
  proof (cases "Tags i")
    case None
    show ?thesis
      unfolding st append_Cons check_ec2_status_inner_untagged [OF None] by simp
  next
    case (Some ts)
    show ?thesis
    proof (cases "check_ec2_status_tags ts nm")
      case None
      show ?thesis
        unfolding st append_Cons check_ec2_status_inner_unbound [OF Some None] by simp
    next
      case v: (Some v)
      show ?thesis
        unfolding st append_Cons check_ec2_status_inner_row [OF Some v] by (rule Cons.IH)
    qed
  qed
qed

lemma check_ec2_status_outer_flat:
  "check_ec2_status_outer rs st = check_ec2_status_inner (enumerated rs) st"
proof (induction rs arbitrary: st)
  case Nil
  show ?case by (simp add: enumerated_def)
next
  case (Cons r rs)
  have "enumerated (r # rs) = Instances r @ enumerated rs" by (simp add: enumerated_def)
  then show ?case
    by (simp add: check_ec2_status_inner_append Cons.IH split: sum.splits)
qed

lemma check_ec2_status_inner_rows:
  "check_ec2_status_inner xs (nm, tbl) = Inr (nm', tbl') \<Longrightarrow>
   prefix (rows tbl) (rows tbl') \<and> length (rows tbl') = length (rows tbl) + length xs"
proof (induction xs arbitrary: nm tbl)
  case Nil
  then show ?case by simp
next
  case (Cons i xs)
  from Cons.prems obtain ts where T: "Tags i = Some ts"
    by (cases "Tags i") (simp_all add: check_ec2_status_inner_untagged)
  from Cons.prems T obtain v where v: "check_ec2_status_tags ts nm = Some v"
    by (cases "check_ec2_status_tags ts nm") (simp_all add: check_ec2_status_inner_unbound del: check_ec2_status_inner.simps)
  let ?tbl = "add_row [Some (InstanceId i), Some (InstanceType i), v, Some (State_Name i)] tbl"
  from Cons.prems have "check_ec2_status_inner xs (Some v, ?tbl) = Inr (nm', tbl')"
    unfolding check_ec2_status_inner_row [OF T v] .
  from Cons.IH [OF this] have "prefix (rows ?tbl) (rows tbl')"
    and "length (rows tbl') = length (rows ?tbl) + length xs"
    by simp_all
  then show ?case
    by (simp add: add_row_def append_prefixD)
qed

lemma check_ec2_status_first_nameless:
  assumes "\<not> has_name_tag i"
  shows "check_ec2_status_inner (i # insts) (None, tbl)
         = Inl (case Tags i of None \<Rightarrow> KeyError ''Tags'' | Some ts \<Rightarrow> UnboundLocalError ''instance_name'')"
proof (cases "Tags i")
  case None
  then show ?thesis by (simp add: check_ec2_status_inner_untagged del: check_ec2_status_inner.simps)
next
  case (Some ts)
  with assms have "\<not> list_ex (\<lambda>t. Key t = Some ''Name'') ts" by (simp add: has_name_tag_def)
  then have "check_ec2_status_tags ts None = None" by (rule check_ec2_status_tags_nameless)
  from check_ec2_status_inner_unbound [OF Some this] Some show ?thesis by simp
qed

lemma check_ec2_status_name_reused:
  assumes "check_ec2_status_inner (pre @ a # b # post) (None, tbl) = Inr (nm', tbl')"
    and "rows tbl = []" and "\<not> has_name_tag b"
  shows "length (rows tbl') = length (pre @ a # b # post)
       \<and> rows tbl' ! Suc (length pre) ! 2 = rows tbl' ! length pre ! 2"
proof -
  from assms(1) obtain nm1 t1 where
    pre: "check_ec2_status_inner pre (None, tbl) = Inr (nm1, t1)"
    and rest: "check_ec2_status_inner (a # b # post) (nm1, t1) = Inr (nm', tbl')"
    by (auto simp: check_ec2_status_inner_append split: sum.splits simp del: check_ec2_status_inner.simps)
  from check_ec2_status_inner_rows [OF pre] assms(2) have l1: "length (rows t1) = length pre" by simp
  from rest obtain tsa where Ta: "Tags a = Some tsa"
    by (cases "Tags a") (simp_all add: check_ec2_status_inner_untagged)
  from rest Ta obtain va where va: "check_ec2_status_tags tsa nm1 = Some va"
    by (cases "check_ec2_status_tags tsa nm1") (simp_all add: check_ec2_status_inner_unbound del: check_ec2_status_inner.simps)
  let ?ra = "[Some (InstanceId a), Some (InstanceType a), va, Some (State_Name a)]"
  let ?t2 = "add_row ?ra t1"
  from rest have rest2: "check_ec2_status_inner (b # post) (Some va, ?t2) = Inr (nm', tbl')"
    unfolding check_ec2_status_inner_row [OF Ta va] .
  then obtain tsb where Tb: "Tags b = Some tsb"
    by (cases "Tags b") (simp_all add: check_ec2_status_inner_untagged del: check_ec2_status_inner.simps)
  with assms(3) have "\<not> list_ex (\<lambda>t. Key t = Some ''Name'') tsb" by (simp add: has_name_tag_def)
  then have vb: "check_ec2_status_tags tsb (Some va) = Some va" by (rule check_ec2_status_tags_nameless)
  let ?rb = "[Some (InstanceId b), Some (InstanceType b), va, Some (State_Name b)]"
  let ?t3 = "add_row ?rb ?t2"
  from rest2 have rest3: "check_ec2_status_inner post (Some va, ?t3) = Inr (nm', tbl')"
    unfolding check_ec2_status_inner_row [OF Tb vb] .
  from check_ec2_status_inner_rows [OF rest3]
  have p: "prefix (rows ?t3) (rows tbl')" and l: "length (rows tbl') = length (rows ?t3) + length post"
    by simp_all
  have r3: "rows ?t3 = rows t1 @ [?ra, ?rb]" by (simp add: add_row_def)
  from p obtain zs where z: "rows tbl' = (rows t1 @ [?ra, ?rb]) @ zs"
    unfolding r3 prefix_def ..
  have "rows tbl' ! length pre = ?ra" and "rows tbl' ! Suc (length pre) = ?rb"
    unfolding z using l1 by (simp_all add: nth_append)
  moreover from l r3 l1 have "length (rows tbl') = length (pre @ a # b # post)" by simp
  ultimately show ?thesis by simp
qed

lemma check_ec2_status_raises:
  "describe_instances p (calls s) = Inl e \<Longrightarrow> check_ec2_status p s = (record_call DescribeInstances s, Inl e)"
  by (simp add: check_ec2_status_def)

lemma check_ec2_status_returns:
  "describe_instances p (calls s) = Inr rs \<Longrightarrow>
   snd (check_ec2_status p s) =
   (case check_ec2_status_inner (enumerated rs)
           (None, \<lparr>title = ''EC2 Instances'',
                   columns = [''Instance ID'', ''Instance Type'', ''Instance Name'', ''State''],
                   rows = []\<rparr>) of
      Inl e \<Rightarrow> Inl e | Inr (nm, tbl) \<Rightarrow> Inr tbl)"
  by (cases "rs = []")
     (simp_all add: check_ec2_status_def Let_def check_ec2_status_outer_flat enumerated_def
        split: sum.splits prod.splits)

lemma check_ec2_status_log: "log (fst (check_ec2_status p s)) = log s"
  by (simp add: check_ec2_status_def Let_def split: sum.splits prod.splits)

lemma check_ec2_status_same_calls:
  "calls s = calls s' \<Longrightarrow> snd (check_ec2_status p s) = snd (check_ec2_status p s')"
  by (simp add: check_ec2_status_def Let_def split: sum.splits prod.splits)

lemma check_status_raises:
  "snd (check_ec2_status p s) = Inl e \<Longrightarrow> snd (check_status p s) = Some e"
  by (cases "check_ec2_status p s") (simp add: check_status_def)

lemma snd_with_progress:
  "snd (with_progress description body s) = snd (body (show_ui (ProgressStarted description) s))"
  by (simp add: with_progress_def split: prod.splits)


lemma snd_run_choice: "snd (run_choice p choice s) = snd (run_choice_dispatch p choice s)"
  by (simp add: run_choice_def split: prod.splits option.splits)


lemma run_choice_status_raises:
  assumes "snd (check_ec2_status p s) = Inl e"
  shows "snd (run_choice p ''0'' s) = Some e"
proof -
  let ?s = "show_ui (ProgressStarted ''[bold cyan]Checking Resource(EC2, RDS, ASG) status'')
              (show_ui (PanelPrinted ''[maroon]Checking status of AWS resources![/]'') (show_ui ClearScreen s))"
  have "calls s = calls ?s" by simp
  from check_ec2_status_same_calls [OF this, of p] assms
  have "snd (check_ec2_status p ?s) = Inl e" by simp
  then have "snd (check_status p ?s) = Some e" by (rule check_status_raises)
  then show ?thesis
    by (simp add: snd_run_choice run_choice_dispatch_def snd_with_progress)
qed

text \<open>
  Claim C10. \<open>check_ec2_status\<close> does not always return a table. When the first
  listed instance has no tag with key \<^verbatim>\<open>Name\<close>, the variable \<^verbatim>\<open>instance_name\<close> is
  read before it was ever assigned and the method raises
  \<^verbatim>\<open>UnboundLocalError\<close> (\<^verbatim>\<open>KeyError\<close> when the instance has no \<^verbatim>\<open>Tags\<close> entry at
  all). When the method does return a table and an instance \<open>b\<close> after the
  first has no such tag, the name in the row of \<open>b\<close> (column 2) is the name
  in the row before it. Nothing in this path handles an error: an exception
  of the enumeration leaves the method as it came, the method never logs, and
  whatever it raises leaves \<open>check_status\<close> and \<open>run_choice\<close> too.
\<close>

theorem check_ec2_status_unhandled:
  "(describe_instances p (calls s) = Inr rs \<and> enumerated rs = i # rest \<and> \<not> has_name_tag i \<longrightarrow>
      snd (check_ec2_status p s)
        = Inl (case Tags i of None \<Rightarrow> KeyError ''Tags'' | Some ts \<Rightarrow> UnboundLocalError ''instance_name''))
   \<and> (describe_instances p (calls s) = Inr rs \<and> enumerated rs = pre @ a # b # post \<and> \<not> has_name_tag b
       \<and> snd (check_ec2_status p s) = Inr tbl \<longrightarrow>
      length (rows tbl) = length (enumerated rs)
      \<and> rows tbl ! Suc (length pre) ! 2 = rows tbl ! length pre ! 2)
   \<and> (describe_instances p (calls s) = Inl e \<longrightarrow>
      check_ec2_status p s = (record_call DescribeInstances s, Inl e))
   \<and> log (fst (check_ec2_status p s)) = log s
   \<and> (snd (check_ec2_status p s) = Inl e \<longrightarrow>
      snd (check_status p s) = Some e \<and> snd (run_choice p ''0'' s) = Some e)"
proof (intro conjI impI)
  assume "describe_instances p (calls s) = Inr rs \<and> enumerated rs = i # rest \<and> \<not> has_name_tag i"
  then show "snd (check_ec2_status p s)
        = Inl (case Tags i of None \<Rightarrow> KeyError ''Tags'' | Some ts \<Rightarrow> UnboundLocalError ''instance_name'')"
    by (simp add: check_ec2_status_returns check_ec2_status_first_nameless del: check_ec2_status_inner.simps)
next
  assume h: "describe_instances p (calls s) = Inr rs \<and> enumerated rs = pre @ a # b # post \<and> \<not> has_name_tag b
       \<and> snd (check_ec2_status p s) = Inr tbl"
  let ?t0 = "\<lparr>title = ''EC2 Instances'',
                   columns = [''Instance ID'', ''Instance Type'', ''Instance Name'', ''State''],
                   rows = []\<rparr>"
  from h obtain nm where run: "check_ec2_status_inner (pre @ a # b # post) (None, ?t0) = Inr (nm, tbl)"
    by (auto simp: check_ec2_status_returns split: sum.splits simp del: check_ec2_status_inner.simps)
  have "rows ?t0 = []" by simp
  from check_ec2_status_name_reused [OF run this] h
  show "length (rows tbl) = length (enumerated rs)"
    and "rows tbl ! Suc (length pre) ! 2 = rows tbl ! length pre ! 2"
    by simp_all
next
  assume "describe_instances p (calls s) = Inl e"
  then show "check_ec2_status p s = (record_call DescribeInstances s, Inl e)"
    by (rule check_ec2_status_raises)
next
  show "log (fst (check_ec2_status p s)) = log s"
    by (rule check_ec2_status_log)
next
  assume r: "snd (check_ec2_status p s) = Inl e"
  then show "snd (check_status p s) = Some e" by (rule check_status_raises)
  from r show "snd (run_choice p ''0'' s) = Some e" by (rule run_choice_status_raises)
qed

theorem check_ec2_status_unhandled_witness:
  "describe_instances nameless_first_provider (calls new_world) = Inr [\<lparr>Instances = [ecs4, web1]\<rparr>]
   \<and> enumerated [\<lparr>Instances = [ecs4, web1]\<rparr>] = ecs4 # [web1] \<and> \<not> has_name_tag ecs4
   \<and> snd (check_ec2_status nameless_first_provider new_world) = Inl (UnboundLocalError ''instance_name'')
   \<and> snd (run_choice nameless_first_provider ''0'' new_world) = Some (UnboundLocalError ''instance_name'')
   \<and> describe_instances nameless_later_provider (calls new_world) = Inr [\<lparr>Instances = [web1]\<rparr>, \<lparr>Instances = [ecs4]\<rparr>]
   \<and> enumerated [\<lparr>Instances = [web1]\<rparr>, \<lparr>Instances = [ecs4]\<rparr>] = [] @ web1 # ecs4 # []
   \<and> \<not> has_name_tag ecs4
   \<and> snd (check_ec2_status nameless_later_provider new_world) = Inr nameless_later_table
   \<and> rows nameless_later_table
       = [[Some ''i-1'', Some ''t3.micro'', Some ''web-1'', Some ''stopped''],
          [Some ''i-4'', Some ''t3.small'', Some ''web-1'', Some ''running'']]
   \<and> rows nameless_later_table ! Suc (length ([] :: ec2_instance list)) ! 2
       = rows nameless_later_table ! length ([] :: ec2_instance list) ! 2
   \<and> describe_instances unreachable_provider (calls new_world) = Inl access_denied
   \<and> check_ec2_status unreachable_provider new_world = (record_call DescribeInstances new_world, Inl access_denied)"
proof -
  have d1: "describe_instances nameless_first_provider (calls new_world) = Inr [\<lparr>Instances = [ecs4, web1]\<rparr>]"
    by (simp add: nameless_first_provider_def)
  have e1: "enumerated [\<lparr>Instances = [ecs4, web1]\<rparr>] = ecs4 # [web1]" and n1: "\<not> has_name_tag ecs4"
    and t1: "Tags ecs4 = Some [ecs_tag]"
    by code_simp+
  note a = check_ec2_status_unhandled [where p = nameless_first_provider and s = new_world
      and rs = "[\<lparr>Instances = [ecs4, web1]\<rparr>]" and i = ecs4 and rest = "[web1]"
      and e = "UnboundLocalError ''instance_name''"]
  from a d1 e1 n1 t1
  have r1: "snd (check_ec2_status nameless_first_provider new_world) = Inl (UnboundLocalError ''instance_name'')"
    by simp
  with a have m1: "snd (run_choice nameless_first_provider ''0'' new_world) = Some (UnboundLocalError ''instance_name'')"
    by simp
  have d2: "describe_instances nameless_later_provider (calls new_world)
              = Inr [\<lparr>Instances = [web1]\<rparr>, \<lparr>Instances = [ecs4]\<rparr>]"
    by (simp add: nameless_later_provider_def)
  have e2: "enumerated [\<lparr>Instances = [web1]\<rparr>, \<lparr>Instances = [ecs4]\<rparr>] = [] @ web1 # ecs4 # []"
    by code_simp
  have r2: "snd (check_ec2_status nameless_later_provider new_world) = Inr nameless_later_table"
    and rw: "rows nameless_later_table
       = [[Some ''i-1'', Some ''t3.micro'', Some ''web-1'', Some ''stopped''],
          [Some ''i-4'', Some ''t3.small'', Some ''web-1'', Some ''running'']]"
    by code_simp+
  from check_ec2_status_unhandled [where p = nameless_later_provider and s = new_world
      and rs = "[\<lparr>Instances = [web1]\<rparr>, \<lparr>Instances = [ecs4]\<rparr>]" and pre = "[]" and a = web1 and b = ecs4
      and post = "[]" and tbl = nameless_later_table] d2 e2 n1 r2
  have u2: "rows nameless_later_table ! Suc (length ([] :: ec2_instance list)) ! 2
       = rows nameless_later_table ! length ([] :: ec2_instance list) ! 2"
    by simp
  have d3: "describe_instances unreachable_provider (calls new_world) = Inl access_denied"
    by (simp add: unreachable_provider_def)
  from check_ec2_status_unhandled [where p = unreachable_provider and s = new_world and e = access_denied] d3
  have r3: "check_ec2_status unreachable_provider new_world = (record_call DescribeInstances new_world, Inl access_denied)"
    by simp
  from d1 e1 n1 r1 m1 d2 e2 r2 rw u2 d3 r3 show ?thesis
    by (intro conjI)
qed

section \<open>Dispatching a menu choice\<close>














end
